theory Spec2Isabelle
  imports Main "HOL-Library.AList"
begin

section \<open>Python values and the builtins the resource pool relies on\<close>

text \<open>
  A provenance entry is either a string \<open>'name:producer'\<close> or a nested list of
  entries (\<open>isinstance(entry, str)\<close> / \<open>isinstance(entry, list)\<close> in
  \<open>CPAC/pipeline/engine.py\<close>).  A lineage chain (\<open>CpacProvenance\<close>) is a
  list of entries.  A Python string is modelled as a \<^typ>\<open>string\<close> whose
  characters stand for the code points 0..255.
\<close>

datatype prov = PStr string | PList "prov list"

text \<open>The exceptions of the module, as values.\<close>

datatype error =
    EmptyProvenance     \<comment> \<open>the \<open>IndexError\<close> re-raised by \<open>set_data\<close> (no provenance)\<close>
  | ResourceNotFound    \<comment> \<open>\<open>LookupError\<close> / \<open>Exception(info_msg)\<close> raised by \<open>get\<close>\<close>
  | NoStrategiesFound   \<comment> \<open>\<open>Exception\<close> of \<open>get_strats\<close>: nothing of the inputs is in the pool\<close>
  | IndexError          \<comment> \<open>an index out of range\<close>
  | KeyError            \<comment> \<open>a missing dictionary key\<close>
  | AttributeError      \<comment> \<open>\<open>.split\<close> on a list\<close>
  | SyntaxError         \<comment> \<open>\<open>ast.literal_eval\<close> on text outside the modelled literals\<close>

subsection \<open>\<open>str.split\<close>, \<open>in\<close>, \<open>str.replace\<close>, \<open>str.join\<close>\<close>

text \<open>\<open>s.split(sep)\<close> for a separator of one character: never empty.\<close>

fun split :: "char \<Rightarrow> string \<Rightarrow> string list" where
  "split sep [] = [[]]"
| "split sep (c # cs) =
     (if c = sep then [] # split sep cs
      else (case split sep cs of [] \<Rightarrow> [[c]] | w # ws \<Rightarrow> (c # w) # ws))"

text \<open>\<open>sub in s\<close> on strings.\<close>

fun contains :: "string \<Rightarrow> string \<Rightarrow> bool" where
  "contains sub [] = (sub = [])"
| "contains sub (c # cs) = (take (length sub) (c # cs) = sub \<or> contains sub cs)"

text \<open>\<open>s.replace(old, new)\<close> for a non-empty \<open>old\<close>: every occurrence, left to
  right, without overlap.  The fuel is the length of the text still to scan.\<close>

fun replace_fuel :: "nat \<Rightarrow> string \<Rightarrow> string \<Rightarrow> string \<Rightarrow> string" where
  "replace_fuel 0 old new s = s"
| "replace_fuel (Suc n) old new [] = []"
| "replace_fuel (Suc n) old new (c # cs) =
     (if take (length old) (c # cs) = old
      then new @ replace_fuel (n - (length old - 1)) old new (drop (length old) (c # cs))
      else c # replace_fuel n old new cs)"

definition replace :: "string \<Rightarrow> string \<Rightarrow> string \<Rightarrow> string" where
  "replace old new s = replace_fuel (length s) old new s"

text \<open>\<open>sep.join(xs)\<close>.\<close>

fun join :: "string \<Rightarrow> string list \<Rightarrow> string" where
  "join sep [] = []"
| "join sep [x] = x"
| "join sep (x # y # ys) = x @ sep @ join sep (y # ys)"

subsection \<open>\<open>str\<close> of a nested list of strings\<close>

text \<open>
  \<open>str(prov)\<close> of a list is \<open>'[' + ', '.join(repr(e) for e in prov) + ']'\<close>, and
  \<open>repr\<close> of a string is CPython's \<open>unicode_repr\<close>: single quotes unless the text
  has a single quote and no double quote; the quote and the backslash escaped by a
  backslash; tab, newline and carriage return as \<open>\t\<close>, \<open>\n\<close>, \<open>\r\<close>; the other
  non-printable code points below 256 as \<open>\xhh\<close>.
\<close>

definition backslash :: char where
  "backslash = CHR 0x5C"

definition hexdigit :: "nat \<Rightarrow> char" where
  "hexdigit n = ''0123456789abcdef'' ! n"

definition nonprintable :: "char \<Rightarrow> bool" where
  "nonprintable c = (let n = (of_char c :: nat) in
     n < 32 \<or> n = 127 \<or> (128 \<le> n \<and> n \<le> 160) \<or> n = 173)"

definition repr_char :: "char \<Rightarrow> char \<Rightarrow> string" where
  "repr_char q c =
     (if c = q \<or> c = backslash then [backslash, c]
      else if c = CHR 0x09 then [backslash, CHR ''t'']
      else if c = CHR 0x0A then [backslash, CHR ''n'']
      else if c = CHR 0x0D then [backslash, CHR ''r'']
      else if nonprintable c
        then [backslash, CHR ''x'', hexdigit (of_char c div 16), hexdigit (of_char c mod 16)]
      else [c])"

definition repr_quote :: "string \<Rightarrow> char" where
  "repr_quote s =
     (if CHR 0x27 \<in> set s \<and> CHR 0x22 \<notin> set s then CHR 0x22 else CHR 0x27)"

definition repr_str :: "string \<Rightarrow> string" where
  "repr_str s = (let q = repr_quote s in q # concat (map (repr_char q) s) @ [q])"

fun py_str :: "prov \<Rightarrow> string" where
  "py_str (PStr s) = repr_str s"
| "py_str (PList xs) = ''['' @ join '', '' (map py_str xs) @ '']''"

subsection \<open>\<open>ast.literal_eval\<close> on list displays of string literals\<close>

text \<open>
  The model of \<open>ast.literal_eval\<close> reads the literals a provenance key is made of:
  list displays \<open>[e, ..., e]\<close> whose elements are list displays or string literals in
  single or double quotes, with the escapes \<open>\\\<close>, \<open>\'\<close>, \<open>\"\<close>, \<open>\t\<close>,
  \<open>\n\<close>, \<open>\r\<close> and \<open>\xhh\<close>, and blanks between the tokens.  Any other text is
  answered by \<open>SyntaxError\<close>.
\<close>

definition hexval :: "char \<Rightarrow> nat option" where
  "hexval c = (let n = (of_char c :: nat) in
     if 48 \<le> n \<and> n \<le> 57 then Some (n - 48)
     else if 97 \<le> n \<and> n \<le> 102 then Some (n - 87)
     else if 65 \<le> n \<and> n \<le> 70 then Some (n - 55)
     else None)"

definition unescape :: "char \<Rightarrow> char option" where
  "unescape e =
     (if e = backslash \<or> e = CHR 0x27 \<or> e = CHR 0x22 then Some e
      else if e = CHR ''t'' then Some (CHR 0x09)
      else if e = CHR ''n'' then Some (CHR 0x0A)
      else if e = CHR ''r'' then Some (CHR 0x0D)
      else None)"

definition cons_result :: "char \<Rightarrow> (string \<times> string) option \<Rightarrow> (string \<times> string) option" where
  "cons_result c r = (case r of None \<Rightarrow> None | Some (s, rest) \<Rightarrow> Some (c # s, rest))"

text \<open>The body of a string literal opened by the quote \<open>q\<close>, up to the closing quote:
  the text it denotes and the input after it.\<close>

fun parse_str_body :: "char \<Rightarrow> string \<Rightarrow> (string \<times> string) option" where
  "parse_str_body q [] = None"
| "parse_str_body q [c] = (if c = q then Some ([], []) else None)"
| "parse_str_body q (c # e # es) =
     (if c = q then Some ([], e # es)
      else if c = backslash then
        (if e = CHR ''x'' then
           (case es of
              h # l # rest \<Rightarrow>
                (case (hexval h, hexval l) of
                   (Some a, Some b) \<Rightarrow> cons_result (char_of (16 * a + b)) (parse_str_body q rest)
                 | _ \<Rightarrow> None)
            | _ \<Rightarrow> None)
         else (case unescape e of
                 Some d \<Rightarrow> cons_result d (parse_str_body q es)
               | None \<Rightarrow> None))
      else if c = CHR 0x0A \<or> c = CHR 0x0D \<or> c = CHR 0x00 then None
      else cons_result c (parse_str_body q (e # es)))"

definition skip_blanks :: "string \<Rightarrow> string" where
  "skip_blanks s = dropWhile (\<lambda>c. c = CHR '' '' \<or> c = CHR 0x09) s"

text \<open>A literal and the elements of a list display after its opening bracket.  The fuel
  bounds the nesting and the number of elements; \<open>literal_eval\<close> gives the length of
  the text, which is enough for every text.\<close>

fun parse_val :: "nat \<Rightarrow> string \<Rightarrow> (prov \<times> string) option"
  and parse_items :: "nat \<Rightarrow> string \<Rightarrow> (prov list \<times> string) option" where
  "parse_val 0 s = None"
| "parse_val (Suc n) [] = None"
| "parse_val (Suc n) (c # cs) =
     (if c = CHR 0x27 \<or> c = CHR 0x22 then
        (case parse_str_body c cs of
           None \<Rightarrow> None
         | Some (s, rest) \<Rightarrow> Some (PStr s, rest))
      else if c = CHR ''['' then
        (case skip_blanks cs of
           [] \<Rightarrow> None
         | d # ds \<Rightarrow>
             if d = CHR '']'' then Some (PList [], ds)
             else (case parse_items n (d # ds) of
                     None \<Rightarrow> None
                   | Some (vs, rest) \<Rightarrow> Some (PList vs, rest)))
      else None)"
| "parse_items 0 s = None"
| "parse_items (Suc n) s =
     (case parse_val n s of
        None \<Rightarrow> None
      | Some (v, r) \<Rightarrow>
          (case skip_blanks r of
             [] \<Rightarrow> None
           | d # ds \<Rightarrow>
               if d = CHR '']'' then Some ([v], ds)
               else if d = CHR '','' then
                 (case parse_items n (skip_blanks ds) of
                    None \<Rightarrow> None
                  | Some (vs, rest) \<Rightarrow> Some (v # vs, rest))
               else None))"

definition literal_eval :: "string \<Rightarrow> error + prov" where
  "literal_eval s =
     (case parse_val (length s) (skip_blanks s) of
        None \<Rightarrow> Inl SyntaxError
      | Some (v, rest) \<Rightarrow> if skip_blanks rest = [] then Inr v else Inl SyntaxError)"


section \<open>The provenance codec\<close>

text \<open>
  Modelled from the spec: \<open>get_last_prov_entry\<close> is imported from
  \<open>CPAC.utils.utils\<close>, which is not among the sources.  The spec gives it as
  \<open>last_step\<close>: the most recent production step, recursing into the last element
  while that is a list.  \<open>set_data\<close> expects an \<open>IndexError\<close> from it when the
  chain has no step.
\<close>

function get_last_prov_entry :: "prov list \<Rightarrow> error + string" where
  "get_last_prov_entry prov =
     (if prov = [] then Inl IndexError
      else (case last prov of
              PStr s \<Rightarrow> Inr s
            | PList inner \<Rightarrow> get_last_prov_entry inner))"
  by pat_completeness auto

lemma size_last_prov:
  "prov \<noteq> [] \<Longrightarrow> last prov = PList inner \<Longrightarrow> size_list size inner < size_list size prov"
  by (induction prov) (auto split: if_splits)

termination get_last_prov_entry
  by (relation "measure (size_list size)") (auto simp: size_last_prov)

declare get_last_prov_entry.simps [simp del]

text \<open>\<open>generate_prov_string\<close>: the resource named by the last step, and the key
  \<open>str(prov)\<close>.\<close>

definition generate_prov_string :: "prov list \<Rightarrow> error + (string \<times> string)" where
  "generate_prov_string prov =
     (case get_last_prov_entry prov of
        Inl e \<Rightarrow> Inl e
      | Inr last_entry \<Rightarrow> Inr (hd (split (CHR '':'') last_entry), py_str (PList prov)))"

definition generate_prov_list :: "string \<Rightarrow> error + prov" where
  "generate_prov_list prov_str = literal_eval prov_str"

text \<open>\<open>get_resource_from_prov\<close> is called on a chain and, in \<open>set_data\<close>, on the
  single elements of a chain, which may be strings: of a string \<open>prov[-1]\<close> is its
  last character.\<close>

definition get_resource_from_prov :: "prov \<Rightarrow> error + string option" where
  "get_resource_from_prov prov =
     (case prov of
        PStr s \<Rightarrow>
          if s = [] then Inr None
          else Inr (Some (hd (split (CHR '':'') [last s])))
      | PList xs \<Rightarrow>
          if xs = [] then Inr None
          else (case last xs of
                  PList inner \<Rightarrow>
                    if inner = [] then Inl IndexError
                    else (case last inner of
                            PStr s \<Rightarrow> Inr (Some (hd (split (CHR '':'') s)))
                          | PList _ \<Rightarrow> Inl AttributeError)
                | PStr s \<Rightarrow> Inr (Some (hd (split (CHR '':'') s)))))"

text \<open>\<open>flatten_prov\<close>: depth-first, order kept.\<close>

fun flatten_prov :: "prov \<Rightarrow> string list" where
  "flatten_prov (PStr s) = [s]"
| "flatten_prov (PList xs) = concat (map flatten_prov xs)"

section \<open>The resource pool\<close>

text \<open>
  The metadata dictionary of a record (\<open>json_info\<close>).  The keys the resolver reads
  and writes are fields, absent when \<open>None\<close>; the descriptive keys
  (\<open>Description\<close>, \<open>SkullStripped\<close>, \<open>Template\<close>, ...) are the association list
  \<open>fields\<close>.  \<open>CpacVariant\<close> maps a base resource name to its list of fork tags,
  in insertion order.
\<close>

datatype 'p metadata = Json
  (CpacProvenance: "'p option")
  (CpacVariant: "(string \<times> string list) list option")
  (RawSources: "string list option")
  (Sources: "string list option")
  (subjson: "(string \<times> 'p metadata) list option")
  (fields: "(string \<times> string) list")

text \<open>The value under \<open>CpacProvenance\<close> is a lineage chain.  (In the store of
  objects further down it is the address of a list object.)\<close>

type_synonym json_info = "prov list metadata"

definition empty_json :: "'p metadata" where
  "empty_json = Json None None None None None []"

definition set_CpacProvenance :: "'p \<Rightarrow> 'p metadata \<Rightarrow> 'p metadata" where
  "set_CpacProvenance p j =
     Json (Some p) (CpacVariant j) (RawSources j) (Sources j) (subjson j) (fields j)"

definition set_CpacVariant :: "(string \<times> string list) list \<Rightarrow> json_info \<Rightarrow> json_info" where
  "set_CpacVariant v j =
     Json (CpacProvenance j) (Some v) (RawSources j) (Sources j) (subjson j) (fields j)"

definition set_subjson :: "(string \<times> json_info) list \<Rightarrow> json_info \<Rightarrow> json_info" where
  "set_subjson sj j =
     Json (CpacProvenance j) (CpacVariant j) (RawSources j) (Sources j) (Some sj) (fields j)"

text \<open>\<open>a.update(b)\<close> on two metadata dictionaries: the keys of \<open>b\<close> win.\<close>

definition or_else :: "'a option \<Rightarrow> 'a option \<Rightarrow> 'a option" where
  "or_else new old = (case new of None \<Rightarrow> old | Some v \<Rightarrow> Some v)"

definition info_update :: "json_info \<Rightarrow> json_info \<Rightarrow> json_info" where
  "info_update a b =
     Json (or_else (CpacProvenance b) (CpacProvenance a))
          (or_else (CpacVariant b) (CpacVariant a))
          (or_else (RawSources b) (RawSources a))
          (or_else (Sources b) (Sources a))
          (or_else (subjson b) (subjson a))
          (foldl (\<lambda>acc (k, v). AList.update k v acc) (fields a) (fields b))"

text \<open>A record of the pool: \<open>{'data': (node, output), 'json': json_info}\<close>.  A node
  of the workflow is an opaque handle.\<close>

type_synonym node = nat

record entry =
  data :: "node \<times> string"
  json :: json_info

text \<open>
  The state of a \<open>ResourcePool\<close> that the operations below read and write:
  \<open>rpool\<close> (resource name to lineage key to record), \<open>pipe_list\<close> and
  \<open>rtable\<close>.  Dictionaries are association lists in insertion order: a new key
  goes to the end, a key that is there keeps its place.
\<close>

record pool =
  rpool :: "(string \<times> (string \<times> entry) list) list"
  pipe_list :: "string list"
  rtable :: "(string \<times> (string \<times> (string \<times> string list) list) list) list"

subsection \<open>\<open>get\<close>\<close>

text \<open>A resource argument is a name or a list of alternative names.\<close>

datatype label = Label string | Labels "string list"

text \<open>What \<open>get\<close> hands back: \<open>None\<close>, the strategies of a resource
  (\<open>self.rpool[resource]\<close>) or one record (\<open>self.rpool[resource][pipe_idx]\<close>);
  with \<open>report_fetched\<close> a pair of that and the name that was found.\<close>

datatype got = NoneVal | Strats "(string \<times> entry) list" | Record entry

datatype get_result = Value got | Fetched got "string option"

definition absent :: "bool \<Rightarrow> bool \<Rightarrow> error + get_result" where
  "absent optional report_fetched =
     (if optional then
        (if report_fetched then Inr (Fetched NoneVal None) else Inr (Value NoneVal))
      else Inl ResourceNotFound)"

definition get :: "pool \<Rightarrow> label \<Rightarrow> string option \<Rightarrow> bool \<Rightarrow> bool \<Rightarrow> error + get_result" where
  "get self resource pipe_idx report_fetched optional =
     (case resource of
        Labels names \<Rightarrow>
          (case find (\<lambda>label. map_of (rpool self) label \<noteq> None) names of
             Some label \<Rightarrow>
               (case map_of (rpool self) label of
                  None \<Rightarrow> Inl KeyError
                | Some strats \<Rightarrow>
                    if report_fetched then Inr (Fetched (Strats strats) (Some label))
                    else Inr (Value (Strats strats)))
           | None \<Rightarrow> absent optional report_fetched)
      | Label name \<Rightarrow>
          (case map_of (rpool self) name of
             None \<Rightarrow> absent optional report_fetched
           | Some strats \<Rightarrow>
               (case pipe_idx of
                  None \<Rightarrow>
                    if report_fetched then Inr (Fetched (Strats strats) (Some name))
                    else Inr (Value (Strats strats))
                | Some idx \<Rightarrow>
                    if idx = [] then
                      (if report_fetched then Inr (Fetched (Strats strats) (Some name))
                       else Inr (Value (Strats strats)))
                    else (case map_of strats idx of
                            None \<Rightarrow> Inl KeyError
                          | Some e \<Rightarrow>
                              if report_fetched then Inr (Fetched (Record e) (Some name))
                              else Inr (Value (Record e))))))"

text \<open>\<open>get_json(resource, strat)\<close> on the main pool, with a lineage key.\<close>

definition get_json :: "pool \<Rightarrow> string \<Rightarrow> string \<Rightarrow> error + json_info" where
  "get_json self resource strat =
     (case map_of (rpool self) resource of
        None \<Rightarrow> Inl KeyError
      | Some strats \<Rightarrow>
          (case map_of strats strat of
             None \<Rightarrow> Inl KeyError
           | Some e \<Rightarrow> Inr (json e)))"


subsection \<open>\<open>set_data\<close>\<close>

text \<open>\<open>parse_bids_tags\<close>: the last \<open>_\<close>-separated part is the resource type, the
  parts before it are \<open>key-value\<close> tags; a tag without \<open>-\<close> raises
  \<open>IndexError\<close> at \<open>tag.split('-')[1]\<close>.\<close>

fun tag_dct_of :: "string list \<Rightarrow> (string \<times> string) list \<Rightarrow> error + (string \<times> string) list" where
  "tag_dct_of [] tag_dct = Inr tag_dct"
| "tag_dct_of (tag # tags) tag_dct =
     (case split (CHR ''-'') tag of
        k # v # _ \<Rightarrow> tag_dct_of tags (AList.update k v tag_dct)
      | _ \<Rightarrow> Inl IndexError)"

definition parse_bids_tags :: "string \<Rightarrow> error + (string \<times> (string \<times> string) list)" where
  "parse_bids_tags resource =
     (let resource_tags = split (CHR ''_'') resource;
          resource_type = last resource_tags
      in case tag_dct_of (butlast resource_tags) [(''None'', ''None'')] of
           Inl e \<Rightarrow> Inl e
         | Inr tag_dct \<Rightarrow> Inr (resource_type, tag_dct))"

text \<open>The update of \<open>rtable[resource_type]\<close> for the tags of a resource: a tag that
  is new gets \<open>{val: []}\<close>; then \<open>rtable[resource_type][tag][val]\<close> is read, which
  raises \<open>KeyError\<close> when the tag is known with other values only.\<close>

fun rtable_tags ::
  "string \<Rightarrow> (string \<times> string) list \<Rightarrow> (string \<times> (string \<times> string list) list) list
   \<Rightarrow> error + (string \<times> (string \<times> string list) list) list" where
  "rtable_tags resource [] table = Inr table"
| "rtable_tags resource ((tag, val) # rest) table =
     (let vals = (case map_of table tag of None \<Rightarrow> [(val, [])] | Some vs \<Rightarrow> vs)
      in case map_of vals val of
           None \<Rightarrow> Inl KeyError
         | Some resources \<Rightarrow>
             rtable_tags resource rest
               (AList.update tag
                  (AList.update val
                     (if resource \<in> set resources then resources else resources @ [resource]) vals)
                  table))"

definition update_rtable ::
  "string \<Rightarrow> (string \<times> (string \<times> (string \<times> string list) list) list) list
   \<Rightarrow> error + (string \<times> (string \<times> (string \<times> string list) list) list) list" where
  "update_rtable resource table =
     (case parse_bids_tags resource of
        Inl e \<Rightarrow> Inl e
      | Inr (resource_type, tag_dct) \<Rightarrow>
          (let inner = (case map_of table resource_type of None \<Rightarrow> [] | Some t \<Rightarrow> t)
           in case rtable_tags resource tag_dct inner of
                Inl e \<Rightarrow> Inl e
              | Inr inner' \<Rightarrow> Inr (AList.update resource_type inner' table)))"

text \<open>
  The head of \<open>set_data\<close> (up to \<open>json_info['CpacProvenance'] = new_prov_list\<close>):
  the chain before the step, the new lineage key and the metadata that is stored.
  The \<open>IndexError\<close> of \<open>generate_prov_string\<close> is caught and raised again with the
  message that the call has no provenance information and should not be an
  injection: \<open>EmptyProvenance\<close>.
\<close>

definition set_data_json ::
  "json_info \<Rightarrow> string \<Rightarrow> string \<Rightarrow> bool \<Rightarrow> error + (prov list \<times> string \<times> json_info)" where
  "set_data_json json_info resource node_name inject =
     (let cpac_prov = (case CpacProvenance json_info of None \<Rightarrow> [] | Some p \<Rightarrow> p);
          current_prov_list = cpac_prov;
          new_prov_list =
            (if \<not> inject then cpac_prov @ [PStr (resource @ '':'' @ node_name)] else cpac_prov)
      in case generate_prov_string new_prov_list of
           Inl e \<Rightarrow> Inl (if e = IndexError then EmptyProvenance else e)
         | Inr (res, new_pipe_idx) \<Rightarrow>
             (let json_info' =
                    (if json_info = empty_json
                     then Json None None (Some [resource]) None None []
                     else json_info)
              in Inr (current_prov_list, new_pipe_idx,
                      set_CpacProvenance new_prov_list json_info')))"

text \<open>The search for the key to delete, over the elements of the chain before the
  step: the first element whose resource is \<open>resource\<close> gives the key; with none,
  \<open>pipe_idx\<close> stays what it was.\<close>

fun search_prov :: "string \<Rightarrow> prov list \<Rightarrow> string \<Rightarrow> error + string" where
  "search_prov resource [] pipe_idx = Inr pipe_idx"
| "search_prov resource (idx # rest) pipe_idx =
     (case get_resource_from_prov idx of
        Inl e \<Rightarrow> Inl e
      | Inr r \<Rightarrow>
          if r = Some resource then
            (case idx of
               PList chain \<Rightarrow>
                 (case generate_prov_string chain of
                    Inl e \<Rightarrow> Inl e
                  | Inr (_, key) \<Rightarrow> Inr key)
             | PStr s \<Rightarrow> Inr s)
          else search_prov resource rest pipe_idx)"

text \<open>The key a non-forking insert deletes (lines 203 to 217).\<close>

definition old_pipe_idx ::
  "(string \<times> entry) list \<Rightarrow> string \<Rightarrow> prov list \<Rightarrow> string \<Rightarrow> error + string" where
  "old_pipe_idx strats resource current_prov_list pipe_idx =
     (case get_resource_from_prov (PList current_prov_list) of
        Inl e \<Rightarrow> Inl e
      | Inr r \<Rightarrow>
          if r = Some resource then
            (case generate_prov_string current_prov_list of
               Inl e \<Rightarrow> Inl e
             | Inr (_, key) \<Rightarrow>
                 if map_of strats key = None
                 then search_prov resource current_prov_list key
                 else Inr key)
          else search_prov resource current_prov_list pipe_idx)"

definition set_data ::
  "pool \<Rightarrow> string \<Rightarrow> node \<Rightarrow> string \<Rightarrow> json_info \<Rightarrow> string \<Rightarrow> string \<Rightarrow> bool \<Rightarrow> bool
   \<Rightarrow> error + pool" where
  "set_data self resource node output json_info pipe_idx node_name fork inject =
     (case set_data_json json_info resource node_name inject of
        Inl e \<Rightarrow> Inl e
      | Inr (current_prov_list, new_pipe_idx, json_info') \<Rightarrow>
          (case (case map_of (rpool self) resource of
                   None \<Rightarrow> Inr []
                 | Some strats \<Rightarrow>
                     if \<not> fork then
                       (case old_pipe_idx strats resource current_prov_list pipe_idx of
                          Inl e \<Rightarrow> Inl e
                        | Inr key \<Rightarrow> Inr (AList.delete key strats))
                     else Inr strats) of
             Inl e \<Rightarrow> Inl e
           | Inr strats \<Rightarrow>
               (case update_rtable resource (rtable self) of
                  Inl e \<Rightarrow> Inl e
                | Inr rtable' \<Rightarrow>
                    Inr \<lparr> rpool = AList.update resource
                                    (AList.update new_pipe_idx
                                       \<lparr> data = (node, output), json = json_info' \<rparr> strats)
                                    (rpool self),
                          pipe_list = (if new_pipe_idx \<in> set (pipe_list self)
                                       then pipe_list self
                                       else pipe_list self @ [new_pipe_idx]),
                          rtable = rtable' \<rparr>)))"


subsection \<open>\<open>get_strats\<close>\<close>

text \<open>A declared input is a name, a list of alternatives, or a tuple of those (a
  linked group).\<close>

datatype input = Single label | Linked "label list"

text \<open>A sub-pool (\<open>strat_pool\<close>): \<open>rpool['json']\<close> and, under the other keys of
  \<open>rpool\<close>, one record per resource name.\<close>

record strat_pool =
  sp_json :: json_info
  sp_rpool :: "(string \<times> entry) list"

text \<open>\<open>rp_dct, fetched_resource = self.get(label, report_fetched=True, optional=True)\<close>
  followed by \<open>if not rp_dct: continue\<close>: \<open>None\<close> when the input is skipped.\<close>

definition fetch :: "pool \<Rightarrow> label \<Rightarrow> ((string \<times> entry) list \<times> string) option" where
  "fetch self resource =
     (case get self resource None True True of
        Inr (Fetched (Strats rp_dct) (Some fetched_resource)) \<Rightarrow>
          if rp_dct = [] then None else Some (rp_dct, fetched_resource)
      | _ \<Rightarrow> None)"

text \<open>The first loop: \<open>resource_list\<close> and \<open>linked_resources\<close>.\<close>

fun linked_of :: "pool \<Rightarrow> label list \<Rightarrow> string list" where
  "linked_of self [] = []"
| "linked_of self (label # labels) =
     (case fetch self label of
        None \<Rightarrow> linked_of self labels
      | Some (rp_dct, fetched_resource) \<Rightarrow> fetched_resource # linked_of self labels)"

fun collect_inputs :: "pool \<Rightarrow> input list \<Rightarrow> label list \<times> string list list" where
  "collect_inputs self [] = ([], [])"
| "collect_inputs self (resource # resources) =
     (let (resource_list, linked_resources) = collect_inputs self resources
      in case resource of
           Linked labels \<Rightarrow>
             (let linked = linked_of self labels
              in (map Label linked @ resource_list,
                  if length linked < 2 then linked_resources else linked # linked_resources))
         | Single label \<Rightarrow> (label # resource_list, linked_resources))"

text \<open>What one record adds to \<open>variant_pool[fetched_resource]\<close>: every fork-tag
  list \<open>val\<close> and \<open>'NO-' + val[0]\<close>.  (The test \<open>val not in variant_pool[...]\<close>
  compares a list with strings and is always true.)\<close>

fun variant_labels :: "(string \<times> string list) list \<Rightarrow> error + string list" where
  "variant_labels [] = Inr []"
| "variant_labels ((key, val) # rest) =
     (case val of
        [] \<Rightarrow> Inl IndexError
      | v # _ \<Rightarrow>
          (case variant_labels rest of
             Inl e \<Rightarrow> Inl e
           | Inr labels \<Rightarrow> Inr (val @ [''NO-'' @ v] @ labels)))"

text \<open>The loop over the lineage keys of one input: its \<open>sub_pool\<close> and the labels
  for its variant registry.\<close>

fun strat_loop :: "pool \<Rightarrow> string \<Rightarrow> string list \<Rightarrow> error + (prov list list \<times> string list)" where
  "strat_loop self fetched_resource [] = Inr ([], [])"
| "strat_loop self fetched_resource (strat # strats) =
     (case get_json self fetched_resource strat of
        Inl e \<Rightarrow> Inl e
      | Inr json_info \<Rightarrow>
          (case CpacProvenance json_info of
             None \<Rightarrow> Inl KeyError
           | Some cpac_prov \<Rightarrow>
               (case (case CpacVariant json_info of
                        None \<Rightarrow> Inr []
                      | Some cv \<Rightarrow> variant_labels cv) of
                  Inl e \<Rightarrow> Inl e
                | Inr labels \<Rightarrow>
                    (case strat_loop self fetched_resource strats of
                       Inl e \<Rightarrow> Inl e
                     | Inr (sub_pool, variants) \<Rightarrow>
                         Inr (cpac_prov # sub_pool, labels @ variants)))))"

text \<open>The second loop: \<open>total_pool\<close> and \<open>variant_pool\<close>; an input that is not in
  the pool is skipped.\<close>

fun gather ::
  "pool \<Rightarrow> label list \<Rightarrow> error + (prov list list list \<times> (string \<times> string list) list)" where
  "gather self [] = Inr ([], [])"
| "gather self (resource # resource_list) =
     (case fetch self resource of
        None \<Rightarrow> gather self resource_list
      | Some (rp_dct, fetched_resource) \<Rightarrow>
          (case strat_loop self fetched_resource (map fst rp_dct) of
             Inl e \<Rightarrow> Inl e
           | Inr (sub_pool, variants) \<Rightarrow>
               (case gather self resource_list of
                  Inl e \<Rightarrow> Inl e
                | Inr (total_pool, variant_pool) \<Rightarrow>
                    Inr (sub_pool # total_pool,
                         AList.update fetched_resource
                           (variants @ (case map_of variant_pool fetched_resource of
                                          None \<Rightarrow> [] | Some later \<Rightarrow> later))
                           variant_pool))))"

text \<open>\<open>len_inputs\<close>: the length of \<open>resource_list\<close>, lowered by one for every
  input that is skipped.\<close>

definition len_inputs :: "pool \<Rightarrow> label list \<Rightarrow> nat" where
  "len_inputs self resource_list =
     length resource_list - length (filter (\<lambda>r. fetch self r = None) resource_list)"

text \<open>The combinations of \<open>itertools.product(*total_pool)\<close> without those whose
  \<open>str\<close> was seen before.\<close>

fun dedup_strats :: "prov list list list \<Rightarrow> string list \<Rightarrow> prov list list list" where
  "dedup_strats [] strat_str_list = []"
| "dedup_strats (strat_list # strats) strat_str_list =
     (let strat_str = py_str (PList (map PList strat_list))
      in if strat_str \<in> set strat_str_list then dedup_strats strats strat_str_list
         else strat_list # dedup_strats strats (strat_str_list @ [strat_str]))"

text \<open>\<open>json_dct\<close>: the metadata of each chosen lineage, by the resource its last
  step names.\<close>

fun json_dct_of ::
  "pool \<Rightarrow> prov list list \<Rightarrow> (string \<times> json_info) list \<Rightarrow> error + (string \<times> json_info) list" where
  "json_dct_of self [] json_dct = Inr json_dct"
| "json_dct_of self (strat # strat_list) json_dct =
     (case generate_prov_string strat of
        Inl e \<Rightarrow> Inl e
      | Inr (strat_resource, strat_idx) \<Rightarrow>
          (case get_json self strat_resource strat_idx of
             Inl e \<Rightarrow> Inl e
           | Inr strat_json \<Rightarrow>
               json_dct_of self strat_list (AList.update strat_resource strat_json json_dct)))"

text \<open>\<open>current_strat\<close> before the spread is looked at: \<open>val[0]\<close> of every fork-tag
  list.\<close>

fun strat_labels :: "(string \<times> string list) list \<Rightarrow> error + string list" where
  "strat_labels [] = Inr []"
| "strat_labels ((key, val) # rest) =
     (case val of
        [] \<Rightarrow> Inl IndexError
      | v # _ \<Rightarrow>
          (case strat_labels rest of
             Inl e \<Rightarrow> Inl e
           | Inr labels \<Rightarrow> Inr (v # labels)))"

text \<open>The spread labels that are no \<open>NO-\<close> label and not in the strategy are added
  to it as \<open>NO-\<close> labels.\<close>

fun add_no_labels :: "string list \<Rightarrow> string list \<Rightarrow> string list" where
  "add_no_labels [] strat = strat"
| "add_no_labels (spread_label # spread) strat =
     (if contains ''NO-'' spread_label then add_no_labels spread strat
      else if spread_label \<notin> set strat
        then add_no_labels spread (strat @ [''NO-'' @ spread_label])
      else add_no_labels spread strat)"

text \<open>The loop over \<open>current_spread\<close> sets \<open>drop\<close> at the first variant that both
  spreads know and only one of the two strategies has.  (\<open>variant is None\<close> never
  holds of a string.)\<close>

definition conflict :: "string list \<Rightarrow> string list \<Rightarrow> string list \<Rightarrow> string list \<Rightarrow> bool" where
  "conflict current_spread current_strat other_spread other_strat =
     list_ex (\<lambda>variant.
        (let in_current_strat = (variant \<in> set current_strat);
             in_other_strat = (variant \<in> set other_strat);
             in_other_spread = (variant \<in> set other_spread)
         in (\<not> in_other_strat \<and> in_other_spread \<and> in_current_strat)
            \<or> (in_other_strat \<and> in_other_spread \<and> \<not> in_current_strat)))
       current_spread"

text \<open>The body of the loop over \<open>ylabel\<close> for one pair of linked inputs.
  \<open>list(set(...))\<close> is modelled by \<^const>\<open>remdups\<close>; only membership in the
  spreads is used.\<close>

definition pair_drop ::
  "(string \<times> string list) list \<Rightarrow> string \<Rightarrow> json_info \<Rightarrow> string \<Rightarrow> json_info \<Rightarrow> error + bool" where
  "pair_drop variant_pool xlabel xjson ylabel yjson =
     (case strat_labels (case CpacVariant xjson of None \<Rightarrow> [] | Some cv \<Rightarrow> cv) of
        Inl e \<Rightarrow> Inl e
      | Inr xlabels \<Rightarrow>
          (case map_of variant_pool xlabel of
             None \<Rightarrow> Inl KeyError
           | Some xpool \<Rightarrow>
               (let current_spread = remdups xpool;
                    current_strat = add_no_labels current_spread xlabels
                in case strat_labels (case CpacVariant yjson of None \<Rightarrow> [] | Some cv \<Rightarrow> cv) of
                     Inl e \<Rightarrow> Inl e
                   | Inr ylabels \<Rightarrow>
                       (case map_of variant_pool ylabel of
                          None \<Rightarrow> Inl KeyError
                        | Some ypool \<Rightarrow>
                            (let other_spread = remdups ypool;
                                 other_strat = add_no_labels other_spread ylabels
                             in Inr (conflict current_spread current_strat
                                       other_spread other_strat))))))"

fun ylabel_loop ::
  "(string \<times> string list) list \<Rightarrow> (string \<times> json_info) list \<Rightarrow> string \<Rightarrow> json_info
   \<Rightarrow> string list \<Rightarrow> error + bool" where
  "ylabel_loop variant_pool json_dct xlabel xjson [] = Inr False"
| "ylabel_loop variant_pool json_dct xlabel xjson (ylabel # linked) =
     (if xlabel = ylabel then ylabel_loop variant_pool json_dct xlabel xjson linked
      else (case map_of json_dct ylabel of
              None \<Rightarrow> Inl KeyError
            | Some yjson \<Rightarrow>
                (case pair_drop variant_pool xlabel xjson ylabel yjson of
                   Inl e \<Rightarrow> Inl e
                 | Inr is_drop \<Rightarrow>
                     if is_drop then Inr True
                     else ylabel_loop variant_pool json_dct xlabel xjson linked)))"

fun xlabel_loop ::
  "(string \<times> string list) list \<Rightarrow> (string \<times> json_info) list \<Rightarrow> string list
   \<Rightarrow> string list \<Rightarrow> error + bool" where
  "xlabel_loop variant_pool json_dct linked [] = Inr False"
| "xlabel_loop variant_pool json_dct linked (xlabel # rest) =
     (case map_of json_dct xlabel of
        None \<Rightarrow> Inl KeyError
      | Some xjson \<Rightarrow>
          (case ylabel_loop variant_pool json_dct xlabel xjson linked of
             Inl e \<Rightarrow> Inl e
           | Inr is_drop \<Rightarrow>
               if is_drop then Inr True
               else xlabel_loop variant_pool json_dct linked rest))"

fun linked_loop ::
  "(string \<times> string list) list \<Rightarrow> (string \<times> json_info) list \<Rightarrow> string list list
   \<Rightarrow> error + bool" where
  "linked_loop variant_pool json_dct [] = Inr False"
| "linked_loop variant_pool json_dct (linked # linked_resources) =
     (case xlabel_loop variant_pool json_dct linked linked of
        Inl e \<Rightarrow> Inl e
      | Inr is_drop \<Rightarrow>
          if is_drop then Inr True
          else linked_loop variant_pool json_dct linked_resources)"

text \<open>\<open>drop\<close> for one combination.\<close>

definition dropped ::
  "pool \<Rightarrow> string list list \<Rightarrow> (string \<times> string list) list \<Rightarrow> prov list list \<Rightarrow> error + bool" where
  "dropped self linked_resources variant_pool strat_list =
     (case json_dct_of self strat_list [] of
        Inl e \<Rightarrow> Inl e
      | Inr json_dct \<Rightarrow> linked_loop variant_pool json_dct linked_resources)"


text \<open>The fork tags of a contributing record that the merged metadata does not have
  yet, by base resource name.\<close>

definition merge_variants ::
  "(string \<times> string list) list \<Rightarrow> (string \<times> string list) list \<Rightarrow> (string \<times> string list) list" where
  "merge_variants merged cv =
     foldl (\<lambda>m (younger_resource, variant_list).
              if map_of m younger_resource = None
              then m @ [(younger_resource, variant_list)] else m) merged cv"

text \<open>The loop \<open>for cpac_prov in strat_list\<close> that fills the sub-pool of a surviving
  combination and appends its key to \<open>self.pipe_list\<close> once per input.\<close>

fun fill_merged ::
  "pool \<Rightarrow> string \<Rightarrow> prov list list \<Rightarrow> strat_pool \<times> string list
   \<Rightarrow> error + (strat_pool \<times> string list)" where
  "fill_merged self pipe_idx [] acc = Inr acc"
| "fill_merged self pipe_idx (cpac_prov # strat_list) (sp, pipes) =
     (case generate_prov_string cpac_prov of
        Inl e \<Rightarrow> Inl e
      | Inr (resource, strat) \<Rightarrow>
          (case map_of (rpool self) resource of
             None \<Rightarrow> Inl KeyError
           | Some strats \<Rightarrow>
               (case map_of strats strat of
                  None \<Rightarrow> Inl KeyError
                | Some resource_strat_dct \<Rightarrow>
                    (let j0 = sp_json sp;
                         j1 = (case CpacVariant (json resource_strat_dct) of
                                 None \<Rightarrow> j0
                               | Some cv \<Rightarrow>
                                   set_CpacVariant
                                     (merge_variants
                                        (case CpacVariant j0 of None \<Rightarrow> [] | Some m \<Rightarrow> m) cv)
                                     j0);
                         data_type = last (split (CHR ''_'') resource)
                     in case subjson j1 of
                          None \<Rightarrow> Inl KeyError
                        | Some sj \<Rightarrow>
                            (let old = (case map_of sj data_type of
                                          None \<Rightarrow> empty_json | Some d \<Rightarrow> d);
                                 j2 = set_subjson
                                        (AList.update data_type
                                           (info_update old (json resource_strat_dct)) sj)
                                        j1
                             in fill_merged self pipe_idx strat_list
                                  (\<lparr> sp_json = j2,
                                     sp_rpool = AList.update resource resource_strat_dct
                                                  (sp_rpool sp) \<rparr>,
                                   pipes @ [pipe_idx]))))))"

text \<open>The loop over the combinations when more than one input is there: a dropped
  combination is skipped, a surviving one becomes the sub-pool under
  \<open>str(strat_list)\<close>.\<close>

fun merged_strats ::
  "pool \<Rightarrow> string list list \<Rightarrow> (string \<times> string list) list \<Rightarrow> prov list list list
   \<Rightarrow> (string \<times> strat_pool) list \<times> string list
   \<Rightarrow> error + ((string \<times> strat_pool) list \<times> string list)" where
  "merged_strats self linked_resources variant_pool [] acc = Inr acc"
| "merged_strats self linked_resources variant_pool (strat_list # rest) (new_strats, pipes) =
     (case dropped self linked_resources variant_pool strat_list of
        Inl e \<Rightarrow> Inl e
      | Inr is_drop \<Rightarrow>
          if is_drop
          then merged_strats self linked_resources variant_pool rest (new_strats, pipes)
          else
            (let pipe_idx = py_str (PList (map PList strat_list))
             in case fill_merged self pipe_idx strat_list
                       (\<lparr> sp_json = Json (Some (map PList strat_list)) None None None (Some []) [],
                          sp_rpool = [] \<rparr>, pipes) of
                  Inl e \<Rightarrow> Inl e
                | Inr (sp, pipes') \<Rightarrow>
                    merged_strats self linked_resources variant_pool rest
                      (AList.update pipe_idx sp new_strats, pipes')))"

text \<open>
  The loop over the lineages of the sole input.  The sub-pool's \<open>rpool['json']\<close> is
  the very dictionary of the record in the main pool, so the keys written to it
  (\<open>subjson\<close>, \<open>CpacProvenance\<close>) are written to the main pool's record too: the
  pool is threaded through the loop.
\<close>

fun single_strats ::
  "prov list list \<Rightarrow> pool \<times> (string \<times> strat_pool) list
   \<Rightarrow> error + (pool \<times> (string \<times> strat_pool) list)" where
  "single_strats [] acc = Inr acc"
| "single_strats (cpac_prov # resource_strat_list) (self, new_strats) =
     (case generate_prov_string cpac_prov of
        Inl e \<Rightarrow> Inl e
      | Inr (resource, pipe_idx) \<Rightarrow>
          (case map_of (rpool self) resource of
             None \<Rightarrow> Inl KeyError
           | Some strats \<Rightarrow>
               (case map_of strats pipe_idx of
                  None \<Rightarrow> Inl KeyError
                | Some resource_strat_dct \<Rightarrow>
                    (let base = set_CpacProvenance cpac_prov
                                  (set_subjson [] (json resource_strat_dct));
                         data_type = last (split (CHR ''_'') resource);
                         inner = set_subjson [(data_type, empty_json)] base;
                         j = set_subjson [(data_type, info_update empty_json inner)] base;
                         record' = resource_strat_dct \<lparr> json := j \<rparr>
                     in single_strats resource_strat_list
                          (self \<lparr> rpool := AList.update resource
                                              (AList.update pipe_idx record' strats)
                                              (rpool self) \<rparr>,
                           AList.update pipe_idx
                             \<lparr> sp_json = j, sp_rpool = [(resource, record')] \<rparr>
                             new_strats)))))"

fun single_pools ::
  "prov list list list \<Rightarrow> pool \<times> (string \<times> strat_pool) list
   \<Rightarrow> error + (pool \<times> (string \<times> strat_pool) list)" where
  "single_pools [] acc = Inr acc"
| "single_pools (resource_strat_list # total_pool) acc =
     (case single_strats resource_strat_list acc of
        Inl e \<Rightarrow> Inl e
      | Inr acc' \<Rightarrow> single_pools total_pool acc')"

text \<open>\<open>get_strats\<close>: the dictionary \<open>new_strats\<close> of sub-pools by merged lineage key,
  and the pool as the call leaves it.\<close>

definition get_strats :: "pool \<Rightarrow> input list \<Rightarrow> error + ((string \<times> strat_pool) list \<times> pool)" where
  "get_strats self resources =
     (let (resource_list, linked_resources) = collect_inputs self resources
      in case gather self resource_list of
           Inl e \<Rightarrow> Inl e
         | Inr (total_pool, variant_pool) \<Rightarrow>
             if total_pool = [] then Inl NoStrategiesFound
             else if len_inputs self resource_list > 1 then
               (case merged_strats self linked_resources variant_pool
                       (dedup_strats (product_lists total_pool) []) ([], pipe_list self) of
                  Inl e \<Rightarrow> Inl e
                | Inr (new_strats, pipes) \<Rightarrow> Inr (new_strats, self \<lparr> pipe_list := pipes \<rparr>))
             else
               (case single_pools total_pool (self, []) of
                  Inl e \<Rightarrow> Inl e
                | Inr (self', new_strats) \<Rightarrow> Inr (new_strats, self')))"


subsection \<open>Well-formed records and the lineages of an input\<close>

text \<open>
  The invariant of the data model for a record stored under \<open>rpool[name][key]\<close>: its
  \<open>CpacProvenance\<close> is a chain whose last step names \<open>name\<close> and whose \<open>str\<close> is
  \<open>key\<close> (what \<open>generate_prov_string\<close> returns), and its fork-tag lists are not empty
  (\<open>connect_block\<close> makes them by appending).
\<close>

definition record_ok :: "string \<Rightarrow> string \<Rightarrow> entry \<Rightarrow> bool" where
  "record_ok name key e =
     ((case CpacProvenance (json e) of
         None \<Rightarrow> False
       | Some c \<Rightarrow> generate_prov_string c = Inr (name, key))
      \<and> (case CpacVariant (json e) of
            None \<Rightarrow> True
          | Some cv \<Rightarrow> list_all (\<lambda>(raw_label, tags). tags \<noteq> []) cv))"

text \<open>An input is present when \<open>get_strats\<close> does not skip it; its lineages are the
  chains of its records, in the order of the keys.\<close>

definition present :: "pool \<Rightarrow> label \<Rightarrow> bool" where
  "present self l = (fetch self l \<noteq> None)"

definition chain_of :: "entry \<Rightarrow> prov list" where
  "chain_of e = (case CpacProvenance (json e) of None \<Rightarrow> [] | Some c \<Rightarrow> c)"

definition lineages :: "pool \<Rightarrow> label \<Rightarrow> prov list list" where
  "lineages self l =
     (case fetch self l of
        None \<Rightarrow> []
      | Some (rp_dct, fetched_resource) \<Rightarrow> map (\<lambda>(key, e). chain_of e) rp_dct)"

text \<open>The keys of a present input are distinct, as those of a dictionary are, and its
  records are well-formed.\<close>

definition input_ok :: "pool \<Rightarrow> label \<Rightarrow> bool" where
  "input_ok self l =
     (case fetch self l of
        None \<Rightarrow> True
      | Some (rp_dct, fetched_resource) \<Rightarrow>
          distinct (map fst rp_dct)
          \<and> list_all (\<lambda>(key, e). record_ok fetched_resource key e) rp_dct)"

text \<open>A chain resolves in the pool when the record it names is there:
  \<open>self.rpool[resource][strat]\<close> for \<open>resource, strat = generate_prov_string(chain)\<close>.\<close>

definition resolvable :: "pool \<Rightarrow> prov list \<Rightarrow> bool" where
  "resolvable self c =
     (\<exists>name k strats e. generate_prov_string c = Inr (name, k)
        \<and> map_of (rpool self) name = Some strats \<and> map_of strats k = Some e)"

text \<open>The invariant for the whole pool.\<close>

definition pool_ok :: "pool \<Rightarrow> bool" where
  "pool_ok self =
     (distinct (map fst (rpool self))
      \<and> (\<forall>(name, strats) \<in> set (rpool self).
            distinct (map fst strats) \<and> (\<forall>(key, e) \<in> set strats. record_ok name key e)))"

section \<open>Committing an output of a node block\<close>

text \<open>\<open>get_raw_label\<close>: the resource name without its first \<open>desc-\<close> tag.\<close>

definition get_raw_label :: "string \<Rightarrow> string" where
  "get_raw_label resource =
     (case find (contains ''desc-'') (split (CHR ''_'') resource) of
        None \<Rightarrow> resource
      | Some tag \<Rightarrow> replace (tag @ ''_'') [] resource)"

text \<open>The name of the producing node: \<open>name\<close>, or \<open>name_opt\<close> when the option is set
  and the block declares more than one option value.  (An option is \<open>None\<close> or an
  option value; the options of \<open>USER-DEFINED\<close> blocks are left out.)\<close>

definition node_name_of :: "string \<Rightarrow> string option \<Rightarrow> string list \<Rightarrow> string" where
  "node_name_of name opt option_val =
     (case opt of
        None \<Rightarrow> name
      | Some v \<Rightarrow> if v \<noteq> [] \<and> length option_val > 1 then name @ ''_'' @ v else name)"

text \<open>
  Lines 1362 to 1368 of \<open>connect_block\<close>: with \<open>fork\<close>, or more than one option of
  the block, or more than one option over all the blocks of the pass, the node name
  is appended to \<open>new_json_info['CpacVariant'][raw_label]\<close>.
\<close>

definition tag_variant ::
  "bool \<Rightarrow> string option list \<Rightarrow> string option list \<Rightarrow> string \<Rightarrow> string \<Rightarrow> json_info \<Rightarrow> json_info" where
  "tag_variant fork opts all_opts label node_name new_json_info =
     (if fork \<or> length opts > 1 \<or> length all_opts > 1 then
        (let cv = (case CpacVariant new_json_info of None \<Rightarrow> [] | Some cv \<Rightarrow> cv);
             raw_label = get_raw_label label;
             tags = (case map_of cv raw_label of None \<Rightarrow> [] | Some tags \<Rightarrow> tags)
         in set_CpacVariant (AList.update raw_label (tags @ [node_name]) cv) new_json_info)
      else new_json_info)"

text \<open>
  The commit of one output (lines 1250 to 1254 and 1362 to 1374): nothing is connected
  unless \<open>True in switch\<close>; \<open>fork = False in switch\<close>; the tagged metadata goes to
  \<open>rpool.set_data(label, connection[0], connection[1], new_json_info, pipe_idx,
  node_name, fork)\<close>.
\<close>

definition commit_output ::
  "pool \<Rightarrow> bool list \<Rightarrow> string option list \<Rightarrow> string option list \<Rightarrow> string
   \<Rightarrow> node \<times> string \<Rightarrow> json_info \<Rightarrow> string \<Rightarrow> string \<Rightarrow> error + pool" where
  "commit_output self switch opts all_opts label connection new_json_info pipe_idx node_name =
     (if True \<in> set switch then
        (let fork = (False \<in> set switch)
         in set_data self label (fst connection) (snd connection)
              (tag_variant fork opts all_opts label node_name new_json_info)
              pipe_idx node_name fork False)
      else Inr self)"

text \<open>The fork-tag list of a metadata dictionary under a base resource name
  (\<open>CpacVariant[raw_label]\<close>, empty when there is none).\<close>

definition fork_tags :: "json_info \<Rightarrow> string \<Rightarrow> string list" where
  "fork_tags json_info raw_label =
     (case CpacVariant json_info of
        None \<Rightarrow> []
      | Some cv \<Rightarrow> (case map_of cv raw_label of None \<Rightarrow> [] | Some tags \<Rightarrow> tags))"

section \<open>The caller's metadata\<close>

text \<open>
  \<open>set_data\<close> receives a reference to the caller's dictionary.  To tell the caller's
  objects from those \<open>set_data\<close> makes, the head of \<open>set_data\<close> is modelled once more
  over a store of objects: the metadata dictionaries (whose \<open>CpacProvenance\<close> is the
  address of a list object) and the provenance lists.  An allocation appends to the
  store; an address is an index.
\<close>

record store =
  dicts :: "nat metadata list"
  lists :: "prov list list"

definition alloc_dict :: "nat metadata \<Rightarrow> store \<Rightarrow> store \<times> nat" where
  "alloc_dict d s = (s \<lparr> dicts := dicts s @ [d] \<rparr>, length (dicts s))"

definition alloc_list :: "prov list \<Rightarrow> store \<Rightarrow> store \<times> nat" where
  "alloc_list l s = (s \<lparr> lists := lists s @ [l] \<rparr>, length (lists s))"

text \<open>The metadata a dictionary of the store stands for.\<close>

definition deref :: "store \<Rightarrow> nat \<Rightarrow> json_info" where
  "deref s a = map_metadata (\<lambda>l. lists s ! l) (dicts s ! a)"

text \<open>
  Lines 181 to 197 on the store, for the caller's dictionary at address \<open>m\<close>:
  \<open>json_info.copy()\<close> allocates a dictionary with the same values; \<open>list(cpac_prov)\<close>
  allocates a list with the same elements; \<open>append\<close> and the item assignment write
  to objects \<open>set_data\<close> has allocated.  The result is the store after the call, the
  address of the dictionary that goes into the record, the address of
  \<open>current_prov_list\<close> and the new lineage key.
\<close>

definition set_data_json_store ::
  "store \<Rightarrow> nat \<Rightarrow> string \<Rightarrow> string \<Rightarrow> bool \<Rightarrow> error + (store \<times> nat \<times> nat \<times> string)" where
  "set_data_json_store s m resource node_name inject =
     (let (s1, json_info) = alloc_dict (dicts s ! m) s;
          (s2, cpac_prov) = (case CpacProvenance (dicts s1 ! json_info) of
                               None \<Rightarrow> alloc_list [] s1
                             | Some a \<Rightarrow> (s1, a));
          (s3, current_prov_list) = alloc_list (lists s2 ! cpac_prov) s2;
          (s4, new_prov_list) = alloc_list (lists s3 ! cpac_prov) s3;
          s5 = (if \<not> inject
                then s4 \<lparr> lists := (lists s4)
                         [new_prov_list := lists s4 ! new_prov_list
                                             @ [PStr (resource @ '':'' @ node_name)]] \<rparr>
                else s4)
      in case generate_prov_string (lists s5 ! new_prov_list) of
           Inl e \<Rightarrow> Inl (if e = IndexError then EmptyProvenance else e)
         | Inr (res, new_pipe_idx) \<Rightarrow>
             (let (s6, json_info') =
                    (if dicts s5 ! json_info = empty_json
                     then alloc_dict (Json None None (Some [resource]) None None []) s5
                     else (s5, json_info));
                  s7 = s6 \<lparr> dicts := (dicts s6)
                            [json_info' := set_CpacProvenance new_prov_list
                                             (dicts s6 ! json_info')] \<rparr>
              in Inr (s7, json_info', current_prov_list, new_pipe_idx)))"

section \<open>Example pools\<close>

text \<open>Concrete pools and metadata, for the instances of the theorems below.\<close>

definition example_pool :: pool where
  "example_pool =
     \<lparr> rpool = [(''T1w'', [(''k1'', \<lparr> data = (1, ''out''), json = empty_json \<rparr>)]),
                (''bold'', [(''k2'', \<lparr> data = (2, ''out''), json = empty_json \<rparr>)])],
       pipe_list = [], rtable = [] \<rparr>"

definition empty_pool :: pool where
  "empty_pool = \<lparr> rpool = [], pipe_list = [], rtable = [] \<rparr>"

definition ingress_json :: json_info where
  "ingress_json = Json (Some [PStr ''T1w:anat_ingress'']) None None None None []"

definition init_key :: string where
  "init_key = py_str (PList [PStr ''T1w:anat_ingress'', PStr ''desc-preproc_T1w:anatomical_init''])"

definition init_pool :: pool where
  "init_pool =
     \<lparr> rpool = [(''desc-preproc_T1w'',
                  [(init_key,
                    \<lparr> data = (1, ''outputspec.anat''),
                       json = Json (Some [PStr ''T1w:anat_ingress'',
                                          PStr ''desc-preproc_T1w:anatomical_init''])
                                None None None None [] \<rparr>)])],
       pipe_list = [init_key],
       rtable = [(''T1w'', [(''None'', [(''None'', [''desc-preproc_T1w''])]),
                            (''desc'', [(''preproc'', [''desc-preproc_T1w''])])])] \<rparr>"

definition caller_store :: store where
  "caller_store =
     \<lparr> dicts = [Json (Some 0) (Some [(''T1w'', [''acpc_alignment''])]) None None None
                   [(''Description'', ''T1w image'')]],
       lists = [[PStr ''T1w:anat_ingress'']] \<rparr>"

definition tagged_json :: json_info where
  "tagged_json = Json (Some [PStr ''T1w:anat_ingress'']) (Some [(''T1w'', [''acpc_alignment''])])
                   None (Some [''T1w'']) None []"

text \<open>Records by their chain, and two pools with two lineages of each of two
  resources: in the first, one lineage of each went through the forking stage
  \<open>acpc_alignment\<close>; in the second, all went through it and one of each through a
  second forking stage, \<open>n4_correction\<close>, as well.\<close>

definition record_of :: "node \<Rightarrow> prov list \<Rightarrow> (string \<times> string list) list option \<Rightarrow> string \<times> entry" where
  "record_of n c cv =
     (py_str (PList c),
      \<lparr> data = (n, ''outputspec.out''), json = Json (Some c) cv None None None [] \<rparr>)"

definition chain_init :: "prov list" where
  "chain_init = [PStr ''T1w:anat_ingress'', PStr ''desc-preproc_T1w:anatomical_init'']"

definition chain_acpc :: "prov list" where
  "chain_acpc = [PStr ''T1w:anat_ingress'', PStr ''desc-preproc_T1w:acpc_alignment'']"

definition chain_n4 :: "prov list" where
  "chain_n4 = [PStr ''T1w:anat_ingress'', PStr ''desc-preproc_T1w:acpc_alignment'',
               PStr ''desc-preproc_T1w:n4_correction'']"

definition mask_init :: "prov list" where
  "mask_init = [PList chain_init, PStr ''desc-brain_mask:brain_mask_afni'']"

definition mask_acpc :: "prov list" where
  "mask_acpc = [PList chain_acpc, PStr ''desc-brain_mask:brain_mask_afni'']"

definition mask_n4 :: "prov list" where
  "mask_n4 = [PList chain_n4, PStr ''desc-brain_mask:brain_mask_afni'']"

definition linked_pool :: pool where
  "linked_pool =
     \<lparr> rpool =
         [(''desc-preproc_T1w'',
           [record_of 1 chain_init None,
            record_of 2 chain_acpc (Some [(''T1w'', [''acpc_alignment''])])]),
          (''desc-brain_mask'',
           [record_of 3 mask_init None,
            record_of 4 mask_acpc (Some [(''T1w'', [''acpc_alignment''])])])],
       pipe_list = [], rtable = [] \<rparr>"


text \<open>A pool in which a stage is named like the negative labels of the registry.\<close>

definition no_tag_pool :: pool where
  "no_tag_pool =
     \<lparr> rpool =
         [(''desc-preproc_T1w'',
           [record_of 1 chain_acpc (Some [(''T1w'', [''NO-n4_correction''])])]),
          (''desc-brain_mask'',
           [record_of 3 mask_acpc None,
            record_of 4 mask_n4 (Some [(''T1w'', [''n4_correction''])])])],
       pipe_list = [], rtable = [] \<rparr>"

section \<open>The key of a chain can be read back\<close>

subsection \<open>String literals\<close>

lemma hexval_hexdigit: "k < 16 \<Longrightarrow> hexval (hexdigit k) = Some k"
proof -
  assume "k < 16"
  then have "k \<in> set [0..<16]" by simp
  then have "k \<in> {0,1,2,3,4,5,6,7,8,9,10,11,12,13,14,15}"
    by (simp add: upt_rec numeral_nat) 
  then show ?thesis
    by (auto simp: hexdigit_def hexval_def)
qed

lemma char_of_div_mod: "char_of (16 * ((of_char c :: nat) div 16) + of_char c mod 16) = c"
  by simp

lemma parse_str_body_cons:
  "t \<noteq> [] \<Longrightarrow> parse_str_body q (c # t) =
     (if c = q then Some ([], t)
      else if c = backslash then
        (if hd t = CHR ''x'' then
           (case tl t of
              h # l # rest \<Rightarrow>
                (case (hexval h, hexval l) of
                   (Some a, Some b) \<Rightarrow> cons_result (char_of (16 * a + b)) (parse_str_body q rest)
                 | _ \<Rightarrow> None)
            | _ \<Rightarrow> None)
         else (case unescape (hd t) of
                 Some d \<Rightarrow> cons_result d (parse_str_body q (tl t))
               | None \<Rightarrow> None))
      else if c = CHR 0x0A \<or> c = CHR 0x0D \<or> c = CHR 0x00 then None
      else cons_result c (parse_str_body q t))"
  by (cases t) (auto split: option.splits list.splits)

lemma of_char_lt_256: "(of_char c :: nat) < 256"
  by (cases c) (simp)

lemma parse_repr_char:
  assumes q: "q = CHR 0x27 \<or> q = CHR 0x22" and t: "t \<noteq> []"
  shows "parse_str_body q (repr_char q c @ t) = cons_result c (parse_str_body q t)"
proof -
  have d16: "(of_char c :: nat) div 16 < 16" using of_char_lt_256[of c] less_mult_imp_div_less[of "of_char c" 16 16] by simp
  have m16: "(of_char c :: nat) mod 16 < 16" by simp
  consider (esc) "c = q \<or> c = backslash"
    | (tab) "\<not> (c = q \<or> c = backslash)" "c = CHR 0x09"
    | (nl) "\<not> (c = q \<or> c = backslash)" "c = CHR 0x0A"
    | (cr) "\<not> (c = q \<or> c = backslash)" "c = CHR 0x0D"
    | (hex) "\<not> (c = q \<or> c = backslash)" "c \<noteq> CHR 0x09" "c \<noteq> CHR 0x0A" "c \<noteq> CHR 0x0D" "nonprintable c"
    | (plain) "\<not> (c = q \<or> c = backslash)" "c \<noteq> CHR 0x09" "c \<noteq> CHR 0x0A" "c \<noteq> CHR 0x0D" "\<not> nonprintable c"
    by blast
  then show ?thesis
  proof cases
    case esc
    then show ?thesis using q t
      by (auto simp: repr_char_def parse_str_body_cons backslash_def unescape_def)
  next
    case tab
    then show ?thesis using q t
      by (auto simp: repr_char_def parse_str_body_cons backslash_def unescape_def)
  next
    case nl
    then show ?thesis using q t
      by (auto simp: repr_char_def parse_str_body_cons backslash_def unescape_def)
  next
    case cr
    then show ?thesis using q t
      by (auto simp: repr_char_def parse_str_body_cons backslash_def unescape_def)
  next
    case hex
    then show ?thesis using q t
      by (auto simp: repr_char_def parse_str_body_cons backslash_def
            hexval_hexdigit[OF d16] hexval_hexdigit[OF m16])
  next
    case plain
    have "c \<noteq> CHR 0x00" using plain(5) by (auto simp: nonprintable_def)
    with plain show ?thesis using q t
      by (auto simp: repr_char_def parse_str_body_cons)
  qed
qed

lemma parse_str_body_repr:
  assumes q: "q = CHR 0x27 \<or> q = CHR 0x22"
  shows "parse_str_body q (concat (map (repr_char q) s) @ q # rest) = Some (s, rest)"
proof (induction s)
  case Nil
  show ?case by (cases rest) simp_all
next
  case (Cons c s)
  have "parse_str_body q (repr_char q c @ (concat (map (repr_char q) s) @ q # rest))
        = cons_result c (parse_str_body q (concat (map (repr_char q) s) @ q # rest))"
    by (rule parse_repr_char[OF q]) simp
  then show ?case using Cons.IH by (simp add: cons_result_def)
qed

subsection \<open>Nested lists\<close>

lemma repr_str_shape:
  "\<exists>q body. repr_str s = q # body \<and> (q = CHR 0x27 \<or> q = CHR 0x22)"
  by (auto simp: repr_str_def repr_quote_def Let_def)

lemma py_str_shape:
  "\<exists>d ds. py_str v = d # ds \<and> (d = CHR 0x27 \<or> d = CHR 0x22 \<or> d = CHR ''['')"
proof (cases v)
  case (PStr s)
  then show ?thesis using repr_str_shape[of s] by auto
next
  case (PList xs)
  then show ?thesis by simp
qed

lemma join_cons: "join sep (x # xs) = x @ (if xs = [] then [] else sep @ join sep xs)"
  by (cases xs) simp_all

lemma skip_blanks_py_str: "skip_blanks (py_str v @ t) = py_str v @ t"
  using py_str_shape[of v] by (auto simp: skip_blanks_def)

lemma parse_val_str:
  "parse_val (Suc n) (repr_str s @ rest) = Some (PStr s, rest)"
proof -
  let ?q = "repr_quote s"
  have q: "?q = CHR 0x27 \<or> ?q = CHR 0x22" by (simp add: repr_quote_def)
  have "repr_str s @ rest = ?q # (concat (map (repr_char ?q) s) @ ?q # rest)"
    by (simp add: repr_str_def Let_def)
  then show ?thesis using q parse_str_body_repr[OF q, of s rest] by auto
qed

lemma parse_items_join:
  assumes IH: "\<And>x n rest. x \<in> set xs \<Longrightarrow> length (py_str x) \<le> n
                 \<Longrightarrow> parse_val n (py_str x @ rest) = Some (x, rest)"
  shows "xs \<noteq> [] \<Longrightarrow> length (join '', '' (map py_str xs)) < n
         \<Longrightarrow> parse_items n (join '', '' (map py_str xs) @ CHR '']'' # rest) = Some (xs, rest)"
  using IH
proof (induction xs arbitrary: n)
  case Nil
  then show ?case by simp
next
  case (Cons x xs)
  from Cons.prems(2) obtain k where n: "n = Suc k" by (cases n) auto
  show ?case
  proof (cases "xs = []")
    case True
    have len: "length (py_str x) \<le> k" using Cons.prems(2) n True by simp
    have "parse_val k (py_str x @ CHR '']'' # rest) = Some (x, CHR '']'' # rest)"
      using Cons.prems(3)[of x k] len by simp
    then show ?thesis using True n by (simp add: skip_blanks_def)
  next
    case False
    let ?tl = "join '', '' (map py_str xs)"
    have j: "join '', '' (map py_str (x # xs)) = py_str x @ '', '' @ ?tl"
      using False by (simp add: join_cons)
    have len: "length (py_str x) \<le> k" "length ?tl < k"
      using Cons.prems(2) n j by simp_all
    have pv: "parse_val k (py_str x @ ('', '' @ ?tl @ CHR '']'' # rest))
              = Some (x, '', '' @ ?tl @ CHR '']'' # rest)"
      using Cons.prems(3)[of x k] len by simp
    have rec: "parse_items k (?tl @ CHR '']'' # rest) = Some (xs, rest)"
      using Cons.IH[OF False len(2)] Cons.prems(3) by simp
    obtain y ys where xs: "xs = y # ys" using False by (cases xs) auto
    have sb: "skip_blanks (CHR '' '' # ?tl @ CHR '']'' # rest) = ?tl @ CHR '']'' # rest"
      using skip_blanks_py_str[of y] xs
      by (simp add: join_cons skip_blanks_def)
    show ?thesis
      unfolding n j using pv rec sb by (simp add: skip_blanks_def)
  qed
qed

lemma parse_val_list:
  "skip_blanks cs = cs \<Longrightarrow> cs = d # ds \<Longrightarrow> d \<noteq> CHR '']''
   \<Longrightarrow> parse_items n cs = Some (vs, rest)
   \<Longrightarrow> parse_val (Suc n) (CHR ''['' # cs) = Some (PList vs, rest)"
  by (simp del: parse_items.simps)

lemma parse_val_py_str:
  "length (py_str v) \<le> n \<Longrightarrow> parse_val n (py_str v @ rest) = Some (v, rest)"
proof (induction v arbitrary: n rest)
  case (PStr s)
  have "2 \<le> length (py_str (PStr s))" by (simp add: repr_str_def Let_def)
  with PStr obtain k where "n = Suc k" by (cases n) auto
  then show ?case using parse_val_str by simp
next
  case (PList xs)
  from PList.prems obtain k where n: "n = Suc k" by (cases n) auto
  show ?case
  proof (cases "xs = []")
    case True
    then show ?thesis using n by (simp add: skip_blanks_def)
  next
    case False
    let ?j = "join '', '' (map py_str xs)"
    have len: "length ?j < k" using PList.prems n by simp
    have items: "parse_items k (?j @ CHR '']'' # rest) = Some (xs, rest)"
      using parse_items_join[of xs k rest] PList.IH False len by blast
    obtain y ys where xs: "xs = y # ys" using False by (cases xs) auto
    obtain d ds where d: "py_str y = d # ds" "d = CHR 0x27 \<or> d = CHR 0x22 \<or> d = CHR ''[''"
      using py_str_shape[of y] by blast
    have jd: "?j @ CHR '']'' # rest = d # (ds @ (if ys = [] then [] else '', '' @ join '', '' (map py_str ys)) @ CHR '']'' # rest)"
      using xs d by (simp add: join_cons)
    have sb: "skip_blanks (?j @ CHR '']'' # rest) = ?j @ CHR '']'' # rest"
      unfolding jd using d(2) by (auto simp: skip_blanks_def)
    have "d \<noteq> CHR '']''" using d(2) by auto
    then have pv: "parse_val (Suc k) (CHR ''['' # ?j @ CHR '']'' # rest) = Some (PList xs, rest)"
      using parse_val_list[OF sb jd _ items] by blast
    have eq: "py_str (PList xs) @ rest = CHR ''['' # ?j @ CHR '']'' # rest" by simp
    show ?thesis unfolding n eq by (rule pv)
  qed
qed

lemma literal_eval_py_str: "literal_eval (py_str v) = Inr v"
proof -
  have "parse_val (length (py_str v)) (py_str v @ []) = Some (v, [])"
    by (rule parse_val_py_str) simp
  moreover have "skip_blanks (py_str v) = py_str v"
    using skip_blanks_py_str[of v "[]"] by simp
  ultimately show ?thesis by (simp add: literal_eval_def skip_blanks_def)
qed

lemma py_str_inj:
  assumes "py_str a = py_str b"
  shows "a = b"
proof -
  have "Inr a = literal_eval (py_str a)" by (simp only: literal_eval_py_str)
  also have "\<dots> = literal_eval (py_str b)" by (simp only: assms)
  also have "\<dots> = Inr b" by (simp only: literal_eval_py_str)
  finally show ?thesis by simp
qed

lemma get_last_prov_entry_error: "get_last_prov_entry prov = Inl e \<Longrightarrow> e = IndexError"
proof (induction prov rule: get_last_prov_entry.induct)
  case (1 prov)
  then show ?case
    by (subst (asm) get_last_prov_entry.simps) (auto split: if_splits prov.splits)
qed

lemma get_last_prov_entry_snoc [simp]: "get_last_prov_entry (prov @ [PStr s]) = Inr s"
  by (subst get_last_prov_entry.simps) simp

lemma generate_prov_string_key:
  "generate_prov_string prov = Inr (r, k) \<Longrightarrow> k = py_str (PList prov)"
  by (auto simp: generate_prov_string_def split: sum.splits)

text \<open>
  C5.  Lineage round trip: when \<open>generate_prov_string\<close> encodes a chain \<open>c\<close> (its
  last step is there, so it returns the resource and the key), \<open>generate_prov_list\<close>
  of the key gives back \<open>c\<close>.
\<close>

theorem lineage_round_trip:
  assumes "generate_prov_string c = Inr (resource, key)"
  shows "generate_prov_list key = Inr (PList c)"
proof -
  have "key = py_str (PList c)" using assms by (rule generate_prov_string_key)
  then show ?thesis by (simp only: generate_prov_list_def literal_eval_py_str)
qed

theorem lineage_round_trip_witness:
  "generate_prov_string
     [PStr ''T1w:anat_ingress'', PList [PStr ''T1w:anat_ingress'', PStr ''desc-brain_mask:afni'']]
   = Inr (''desc-brain_mask'',
          py_str (PList [PStr ''T1w:anat_ingress'',
                         PList [PStr ''T1w:anat_ingress'', PStr ''desc-brain_mask:afni'']]))
   \<and> generate_prov_list
       (py_str (PList [PStr ''T1w:anat_ingress'',
                       PList [PStr ''T1w:anat_ingress'', PStr ''desc-brain_mask:afni'']]))
     = Inr (PList [PStr ''T1w:anat_ingress'',
                   PList [PStr ''T1w:anat_ingress'', PStr ''desc-brain_mask:afni'']])"
proof -
  let ?c = "[PStr ''T1w:anat_ingress'',
             PList [PStr ''T1w:anat_ingress'', PStr ''desc-brain_mask:afni'']]"
  have h: "generate_prov_string ?c = Inr (''desc-brain_mask'', py_str (PList ?c))"
    by (simp add: generate_prov_string_def get_last_prov_entry.simps)
  from lineage_round_trip [OF h] h show ?thesis by simp
qed

section \<open>Lookup with alternatives\<close>

lemma find_first:
  "(\<And>y. y \<in> set pre \<Longrightarrow> \<not> P y) \<Longrightarrow> P x \<Longrightarrow> find P (pre @ x # post) = Some x"
  by (induction pre) auto

text \<open>
  C9.  \<open>get\<close> with a list of alternative names returns the strategies of the first
  name, in list order, that is a key of the pool (with \<open>report_fetched\<close>, together
  with that name).  When no name of the list is in the pool it raises the exception
  that stands for \<open>ResourceNotFound\<close> unless \<open>optional\<close> is set; with \<open>optional\<close> it
  returns \<open>None\<close> (\<open>(None, None)\<close> with \<open>report_fetched\<close>).
\<close>

theorem get_alternatives:
  "(\<forall>pre label post strats.
       names = pre @ label # post
       \<longrightarrow> (\<forall>l \<in> set pre. map_of (rpool self) l = None)
       \<longrightarrow> map_of (rpool self) label = Some strats
       \<longrightarrow> get self (Labels names) pipe_idx False optional = Inr (Value (Strats strats))
           \<and> get self (Labels names) pipe_idx True optional
               = Inr (Fetched (Strats strats) (Some label)))
   \<and> ((\<forall>l \<in> set names. map_of (rpool self) l = None)
       \<longrightarrow> get self (Labels names) pipe_idx report_fetched False = Inl ResourceNotFound
           \<and> get self (Labels names) pipe_idx False True = Inr (Value NoneVal)
           \<and> get self (Labels names) pipe_idx True True = Inr (Fetched NoneVal None))"
proof (intro conjI allI impI)
  fix pre label post strats
  assume names: "names = pre @ label # post"
    and pre: "\<forall>l \<in> set pre. map_of (rpool self) l = None"
    and label: "map_of (rpool self) label = Some strats"
  have f: "find (\<lambda>l. map_of (rpool self) l \<noteq> None) names = Some label"
    unfolding names using pre label by (intro find_first) auto
  show "get self (Labels names) pipe_idx False optional = Inr (Value (Strats strats))"
    using f label by (simp add: get_def)
  show "get self (Labels names) pipe_idx True optional
          = Inr (Fetched (Strats strats) (Some label))"
    using f label by (simp add: get_def)
next
  assume none: "\<forall>l \<in> set names. map_of (rpool self) l = None"
  then have f: "find (\<lambda>l. map_of (rpool self) l \<noteq> None) names = None"
    by (simp add: find_None_iff)
  show "get self (Labels names) pipe_idx report_fetched False = Inl ResourceNotFound"
    using f by (simp add: get_def absent_def)
  show "get self (Labels names) pipe_idx False True = Inr (Value NoneVal)"
    using f by (simp add: get_def absent_def)
  show "get self (Labels names) pipe_idx True True = Inr (Fetched NoneVal None)"
    using f by (simp add: get_def absent_def)
qed

theorem get_alternatives_witness:
  "get example_pool (Labels [''desc-preproc_T1w'', ''T1w'', ''bold'']) None False False
     = Inr (Value (Strats [(''k1'', \<lparr> data = (1, ''out''), json = empty_json \<rparr>)]))
   \<and> get example_pool (Labels [''desc-preproc_T1w'', ''T1w'', ''bold'']) None True False
     = Inr (Fetched (Strats [(''k1'', \<lparr> data = (1, ''out''), json = empty_json \<rparr>)]) (Some ''T1w''))
   \<and> get example_pool (Labels [''desc-preproc_T1w'', ''mask'']) None True False
     = Inl ResourceNotFound
   \<and> get example_pool (Labels [''desc-preproc_T1w'', ''mask'']) None False True
     = Inr (Value NoneVal)
   \<and> get example_pool (Labels [''desc-preproc_T1w'', ''mask'']) None True True
     = Inr (Fetched NoneVal None)"
proof -
  let ?e = "[(''k1'', \<lparr> data = (1, ''out''), json = empty_json \<rparr>)]"
  have a: "[''desc-preproc_T1w'', ''T1w'', ''bold''] = [''desc-preproc_T1w''] @ ''T1w'' # [''bold'']"
    by simp
  have b: "\<forall>l \<in> set [''desc-preproc_T1w'']. map_of (rpool example_pool) l = None"
    by (simp add: example_pool_def)
  have c: "map_of (rpool example_pool) ''T1w'' = Some ?e"
    by (simp add: example_pool_def)
  have d: "\<forall>l \<in> set [''desc-preproc_T1w'', ''mask'']. map_of (rpool example_pool) l = None"
    by (simp add: example_pool_def)
  from get_alternatives [of "[''desc-preproc_T1w'', ''T1w'', ''bold'']" example_pool None False True]
    a b c
  have 1: "get example_pool (Labels [''desc-preproc_T1w'', ''T1w'', ''bold'']) None False False
             = Inr (Value (Strats ?e))
           \<and> get example_pool (Labels [''desc-preproc_T1w'', ''T1w'', ''bold'']) None True False
             = Inr (Fetched (Strats ?e) (Some ''T1w''))"
    by blast
  from get_alternatives [of "[''desc-preproc_T1w'', ''mask'']" example_pool None False True] d
  have 2: "get example_pool (Labels [''desc-preproc_T1w'', ''mask'']) None True False
             = Inl ResourceNotFound
           \<and> get example_pool (Labels [''desc-preproc_T1w'', ''mask'']) None False True
             = Inr (Value NoneVal)
           \<and> get example_pool (Labels [''desc-preproc_T1w'', ''mask'']) None True True
             = Inr (Fetched NoneVal None)"
    by blast
  from 1 2 show ?thesis by blast
qed

section \<open>Insertion\<close>

subsection \<open>Which exceptions an insertion can raise\<close>

lemma generate_prov_string_error: "generate_prov_string prov = Inl e \<Longrightarrow> e = IndexError"
  by (auto simp: generate_prov_string_def split: sum.splits dest: get_last_prov_entry_error)

lemma generate_prov_string_Inl_iff:
  "(\<exists>e. generate_prov_string prov = Inl e) \<longleftrightarrow> get_last_prov_entry prov = Inl IndexError"
  by (auto simp: generate_prov_string_def split: sum.splits dest: get_last_prov_entry_error)

lemma get_resource_from_prov_error:
  "get_resource_from_prov p = Inl e \<Longrightarrow> e \<noteq> EmptyProvenance"
  by (auto simp: get_resource_from_prov_def split: prov.splits if_splits)

lemma search_prov_error:
  "search_prov resource chain pipe_idx = Inl e \<Longrightarrow> e \<noteq> EmptyProvenance"
proof (induction chain)
  case Nil
  then show ?case by simp
next
  case (Cons idx chain)
  then show ?case
    by (auto split: sum.splits if_splits prov.splits
             dest: get_resource_from_prov_error generate_prov_string_error)
qed

lemma old_pipe_idx_error:
  "old_pipe_idx strats resource chain pipe_idx = Inl e \<Longrightarrow> e \<noteq> EmptyProvenance"
  by (auto simp: old_pipe_idx_def split: sum.splits if_splits
           dest: get_resource_from_prov_error generate_prov_string_error search_prov_error)

lemma tag_dct_of_error: "tag_dct_of tags d = Inl e \<Longrightarrow> e = IndexError"
  by (induction tags arbitrary: d) (auto split: list.splits)

lemma rtable_tags_error: "rtable_tags resource tag_dct table = Inl e \<Longrightarrow> e = KeyError"
  by (induction resource tag_dct table rule: rtable_tags.induct)
     (auto simp: Let_def split: option.splits)

lemma update_rtable_error:
  "update_rtable resource table = Inl e \<Longrightarrow> e \<noteq> EmptyProvenance"
  by (auto simp: update_rtable_def parse_bids_tags_def Let_def split: sum.splits
           dest: tag_dct_of_error rtable_tags_error)

lemma set_data_json_Inl_iff:
  "set_data_json json_info resource node_name inject = Inl e
   \<longleftrightarrow> e = EmptyProvenance \<and> inject
       \<and> get_last_prov_entry (case CpacProvenance json_info of None \<Rightarrow> [] | Some p \<Rightarrow> p)
           = Inl IndexError"
proof (cases inject)
  case True
  then show ?thesis
    using generate_prov_string_Inl_iff
            [of "case CpacProvenance json_info of None \<Rightarrow> [] | Some p \<Rightarrow> p"]
    by (auto simp: set_data_json_def Let_def split: sum.splits
             dest: generate_prov_string_error)
next
  case False
  then show ?thesis
    by (auto simp: set_data_json_def Let_def generate_prov_string_def split: sum.splits)
qed

text \<open>
  C6 (as amended).  \<open>set_data\<close> raises \<open>EmptyProvenance\<close> exactly when \<open>inject\<close> is
  true and the chain of the metadata has no last step: \<open>CpacProvenance\<close> is absent
  or empty, or its last element is, at some depth, an empty list.  A call that is
  not an injection appends its own step first and never raises it.
\<close>

theorem set_data_empty_provenance:
  "set_data self resource node output json_info pipe_idx node_name fork inject = Inl EmptyProvenance
   \<longleftrightarrow> inject
       \<and> get_last_prov_entry (case CpacProvenance json_info of None \<Rightarrow> [] | Some p \<Rightarrow> p)
           = Inl IndexError"
proof (cases "set_data_json json_info resource node_name inject")
  case (Inl e)
  then show ?thesis using set_data_json_Inl_iff [of json_info resource node_name inject e]
    by (auto simp: set_data_def)
next
  case (Inr r)
  then have no: "\<not> (inject
       \<and> get_last_prov_entry (case CpacProvenance json_info of None \<Rightarrow> [] | Some p \<Rightarrow> p)
           = Inl IndexError)"
    using set_data_json_Inl_iff [of json_info resource node_name inject EmptyProvenance]
    by auto
  obtain cur key j' where r: "r = (cur, key, j')" by (cases r) auto
  have "set_data self resource node output json_info pipe_idx node_name fork inject
          \<noteq> Inl EmptyProvenance"
    using Inr r
    by (auto simp: set_data_def split: option.splits sum.splits if_splits
             dest: old_pipe_idx_error update_rtable_error)
  with no show ?thesis by blast
qed

theorem set_data_empty_provenance_witness:
  "set_data empty_pool ''T1w'' 1 ''outputspec.anat'' empty_json [] ''anat_ingress'' False True
     = Inl EmptyProvenance"
  using set_data_empty_provenance
          [of empty_pool "''T1w''" 1 "''outputspec.anat''" empty_json "[]" "''anat_ingress''" False True]
  by (simp add: empty_json_def get_last_prov_entry.simps)

text \<open>Without provenance and without \<open>inject\<close> the record is stored; the injection
  without provenance is what raises.\<close>

theorem set_data_empty_provenance_counterexample:
  "set_data empty_pool ''T1w'' 1 ''outputspec.anat'' empty_json [] ''anat_ingress'' False False
     = Inr \<lparr> rpool = [(''T1w'',
                        [(py_str (PList [PStr ''T1w:anat_ingress'']),
                          \<lparr> data = (1, ''outputspec.anat''),
                             json = Json (Some [PStr ''T1w:anat_ingress'']) None
                                      (Some [''T1w'']) None None [] \<rparr>)])],
              pipe_list = [py_str (PList [PStr ''T1w:anat_ingress''])],
              rtable = [(''T1w'', [(''None'', [(''None'', [''T1w''])])])] \<rparr>
   \<and> set_data empty_pool ''T1w'' 1 ''outputspec.anat'' empty_json [] ''anat_ingress'' False True
     = Inl EmptyProvenance"
  by code_simp

subsection \<open>What an insertion does to the strategies of its resource\<close>

lemma set_data_json_result:
  "set_data_json json_info resource node_name inject = Inr (cur, key, j')
   \<Longrightarrow> cur = (case CpacProvenance json_info of None \<Rightarrow> [] | Some p \<Rightarrow> p)
     \<and> key = py_str (PList (if inject then cur else cur @ [PStr (resource @ '':'' @ node_name)]))
     \<and> CpacProvenance j'
         = Some (if inject then cur else cur @ [PStr (resource @ '':'' @ node_name)])
     \<and> CpacVariant j' = CpacVariant json_info"
  by (auto simp: set_data_json_def Let_def set_CpacProvenance_def empty_json_def
           split: sum.splits if_splits dest: generate_prov_string_key)

lemma set_data_rpool:
  assumes "set_data self resource node output json_info pipe_idx node_name fork inject = Inr self'"
  shows "\<exists>cur key j' strats.
           set_data_json json_info resource node_name inject = Inr (cur, key, j')
         \<and> map_of (rpool self') resource
             = Some (AList.update key \<lparr> data = (node, output), json = j' \<rparr> strats)
         \<and> (map_of (rpool self) resource = None \<longrightarrow> strats = [])
         \<and> (\<forall>old. map_of (rpool self) resource = Some old \<longrightarrow>
               (fork \<longrightarrow> strats = old)
             \<and> (\<not> fork \<longrightarrow> (\<exists>k. old_pipe_idx old resource cur pipe_idx = Inr k
                                   \<and> strats = AList.delete k old)))"
  using assms
  by (auto simp: set_data_def update_conv' split: sum.splits option.splits if_splits)





text \<open>
  C4 (as amended).  A forking insert for a resource that is in the pool deletes no key
  of the resource and leaves every record under a key other than the newly derived one
  as it was; under the newly derived key stands the new record.
\<close>

theorem forking_insert_keeps_entries:
  assumes old: "map_of (rpool self) resource = Some strats"
    and s: "set_data self resource node output json_info pipe_idx node_name True inject = Inr self'"
  shows "\<exists>strats' cur key j'.
           map_of (rpool self') resource = Some strats'
         \<and> set_data_json json_info resource node_name inject = Inr (cur, key, j')
         \<and> map_of strats' key = Some \<lparr> data = (node, output), json = j' \<rparr>
         \<and> (\<forall>k0. k0 \<noteq> key \<longrightarrow> map_of strats' k0 = map_of strats k0)
         \<and> dom (map_of strats) \<subseteq> dom (map_of strats')"
proof -
  from set_data_rpool [OF s] old obtain cur key j' where
    a: "set_data_json json_info resource node_name inject = Inr (cur, key, j')"
       "map_of (rpool self') resource
          = Some (AList.update key \<lparr> data = (node, output), json = j' \<rparr> strats)"
    by fastforce
  show ?thesis
    using a by (auto simp: update_conv')
qed

theorem forking_insert_keeps_entries_witness:
  "\<exists>self' strats' cur key j'.
      map_of (rpool init_pool) ''desc-preproc_T1w''
        = Some [(init_key,
                 \<lparr> data = (1, ''outputspec.anat''),
                    json = Json (Some [PStr ''T1w:anat_ingress'',
                                       PStr ''desc-preproc_T1w:anatomical_init''])
                             None None None None [] \<rparr>)]
    \<and> set_data init_pool ''desc-preproc_T1w'' 2 ''outputspec.out'' ingress_json []
        ''acpc_alignment'' True False = Inr self'
    \<and> map_of (rpool self') ''desc-preproc_T1w'' = Some strats'
    \<and> set_data_json ingress_json ''desc-preproc_T1w'' ''acpc_alignment'' False
        = Inr (cur, key, j')
    \<and> map_of strats' key = Some \<lparr> data = (2, ''outputspec.out''), json = j' \<rparr>
    \<and> map_of strats' init_key
        = Some \<lparr> data = (1, ''outputspec.anat''),
                 json = Json (Some [PStr ''T1w:anat_ingress'',
                                    PStr ''desc-preproc_T1w:anatomical_init''])
                          None None None None [] \<rparr>"
proof -
  let ?old = "[(init_key,
                 \<lparr> data = (1, ''outputspec.anat''),
                    json = Json (Some [PStr ''T1w:anat_ingress'',
                                       PStr ''desc-preproc_T1w:anatomical_init''])
                             None None None None [] \<rparr>)]"
  define self' where
    "self' = projr (set_data init_pool ''desc-preproc_T1w'' 2 ''outputspec.out'' ingress_json []
                      ''acpc_alignment'' True False)"
  have old: "map_of (rpool init_pool) ''desc-preproc_T1w'' = Some ?old"
    by (simp add: init_pool_def)
  have h: "set_data init_pool ''desc-preproc_T1w'' 2 ''outputspec.out'' ingress_json []
             ''acpc_alignment'' True False = Inr self'"
    unfolding self'_def by code_simp
  from forking_insert_keeps_entries [OF old h] obtain strats' cur key j' where
    r: "map_of (rpool self') ''desc-preproc_T1w'' = Some strats'"
       "set_data_json ingress_json ''desc-preproc_T1w'' ''acpc_alignment'' False
          = Inr (cur, key, j')"
       "map_of strats' key = Some \<lparr> data = (2, ''outputspec.out''), json = j' \<rparr>"
       "\<forall>k0. k0 \<noteq> key \<longrightarrow> map_of strats' k0 = map_of ?old k0"
    by blast
  have k: "key = py_str (PList ([PStr ''T1w:anat_ingress'']
                              @ [PStr (''desc-preproc_T1w'' @ '':'' @ ''acpc_alignment'')]))"
    using set_data_json_result [OF r(2)] by (simp add: ingress_json_def del: py_str.simps)
  have "init_key \<noteq> key"
  proof
    assume "init_key = key"
    then have "PList [PStr ''T1w:anat_ingress'', PStr ''desc-preproc_T1w:anatomical_init'']
               = PList ([PStr ''T1w:anat_ingress'']
                        @ [PStr (''desc-preproc_T1w'' @ '':'' @ ''acpc_alignment'')])"
      unfolding init_key_def k by (rule py_str_inj)
    then show False by simp
  qed
  then have "map_of strats' init_key = map_of ?old init_key" using r(4) by metis
  then show ?thesis using old h r(1,2,3) by auto
qed

text \<open>When the newly derived key is the key of a record that is there, the forking
  insert replaces that record: the same resource from the same node with the same
  ancestry, inserted again.\<close>

theorem forking_insert_same_key_counterexample:
  "map_of (rpool init_pool) ''desc-preproc_T1w''
     = Some [(init_key,
              \<lparr> data = (1, ''outputspec.anat''),
                 json = Json (Some [PStr ''T1w:anat_ingress'',
                                    PStr ''desc-preproc_T1w:anatomical_init''])
                          None None None None [] \<rparr>)]
   \<and> set_data init_pool ''desc-preproc_T1w'' 2 ''outputspec.out'' ingress_json []
        ''anatomical_init'' True False
     = Inr \<lparr> rpool = [(''desc-preproc_T1w'',
                        [(init_key,
                          \<lparr> data = (2, ''outputspec.out''),
                             json = Json (Some [PStr ''T1w:anat_ingress'',
                                                PStr ''desc-preproc_T1w:anatomical_init''])
                                      None None None None [] \<rparr>)])],
              pipe_list = [init_key],
              rtable = [(''T1w'', [(''None'', [(''None'', [''desc-preproc_T1w''])]),
                                   (''desc'', [(''preproc'', [''desc-preproc_T1w''])])])] \<rparr>"
  by code_simp

section \<open>The caller's metadata is not written to\<close>

lemma nth_append_left: "i < length xs \<Longrightarrow> (xs @ ys) ! i = xs ! i"
  by (simp add: nth_append)

text \<open>
  C10.  On the store of objects: after the head of \<open>set_data\<close> has run for the caller's
  dictionary at address \<open>m\<close>, the dictionary at \<open>m\<close> is what it was, as is every
  dictionary and every list that was in the store before the call.  The dictionary
  that goes into the record is one the call has allocated, its \<open>CpacProvenance\<close> is
  a list the call has allocated, and the step the call appends is in that list.
\<close>

theorem set_data_keeps_caller_metadata:
  assumes m: "m < length (dicts s)"
    and call: "set_data_json_store s m resource node_name inject = Inr (s', j, cur, key)"
  shows "dicts s' ! m = dicts s ! m
       \<and> (\<forall>d < length (dicts s). dicts s' ! d = dicts s ! d)
       \<and> (\<forall>a < length (lists s). lists s' ! a = lists s ! a)
       \<and> length (dicts s) \<le> j \<and> j < length (dicts s')
       \<and> (\<exists>l. CpacProvenance (dicts s' ! j) = Some l
              \<and> length (lists s) \<le> l \<and> l < length (lists s')
              \<and> (\<not> inject \<longrightarrow> lists s' ! l \<noteq> [] \<and> last (lists s' ! l) = PStr (resource @ '':'' @ node_name)))"
  using assms
  apply (simp add: set_data_json_store_def alloc_dict_def alloc_list_def Let_def
      split: option.splits sum.splits prod.splits if_splits)
  apply (auto simp: nth_append set_CpacProvenance_def)
  done

theorem set_data_keeps_caller_metadata_witness:
  "\<exists>s' j cur key l.
      set_data_json_store caller_store 0 ''desc-preproc_T1w'' ''anatomical_init'' False
        = Inr (s', j, cur, key)
    \<and> dicts s' ! 0 = Json (Some 0) (Some [(''T1w'', [''acpc_alignment''])]) None None None
                        [(''Description'', ''T1w image'')]
    \<and> lists s' ! 0 = [PStr ''T1w:anat_ingress'']
    \<and> 1 \<le> j
    \<and> CpacProvenance (dicts s' ! j) = Some l \<and> 1 \<le> l
    \<and> last (lists s' ! l) = PStr ''desc-preproc_T1w:anatomical_init''"
proof -
  define r where
    "r = projr (set_data_json_store caller_store 0 ''desc-preproc_T1w'' ''anatomical_init'' False)"
  obtain s' j cur key where r: "r = (s', j, cur, key)" by (cases r) auto
  have call: "set_data_json_store caller_store 0 ''desc-preproc_T1w'' ''anatomical_init'' False
                = Inr (s', j, cur, key)"
    unfolding r [symmetric] r_def by code_simp
  have m: "0 < length (dicts caller_store)" by (simp add: caller_store_def)
  from set_data_keeps_caller_metadata [OF m call] call show ?thesis
    by (auto simp: caller_store_def)
qed

text \<open>The store model and the value model of the head of \<open>set_data\<close> agree: what the
  stored dictionary stands for is the metadata \<^const>\<open>set_data_json\<close> computes from
  what the caller's dictionary stands for.\<close>

lemma map_metadata_empty_iff: "map_metadata f d = empty_json \<longleftrightarrow> d = empty_json"
  by (cases d) (auto simp: empty_json_def)

lemma map_metadata_set_CpacProvenance:
  "map_metadata f (set_CpacProvenance p d) = set_CpacProvenance (f p) (map_metadata f d)"
  by (cases d) (simp add: set_CpacProvenance_def)

lemma CpacProvenance_map_metadata:
  "CpacProvenance (map_metadata f d) = map_option f (CpacProvenance d)"
  by (cases d) simp

lemma deref_frame:
  assumes "\<forall>l \<in> set_metadata d. l < length ls"
    and "\<forall>l < length ls. ls' ! l = ls ! l"
  shows "map_metadata (\<lambda>l. ls' ! l) d = map_metadata (\<lambda>l. ls ! l) d"
  using assms by (intro metadata.map_cong) auto

lemma set_data_json_store_result:
  assumes m: "m < length (dicts s)"
    and ref: "\<forall>a. CpacProvenance (dicts s ! m) = Some a \<longrightarrow> a < length (lists s)"
    and call: "set_data_json_store s m resource node_name inject = Inr (s', j, cur, key)"
  shows "\<exists>l res.
         lists s' ! cur = (case CpacProvenance (dicts s ! m) of
                               None \<Rightarrow> [] | Some a \<Rightarrow> lists s ! a)
       \<and> lists s' ! l = (if inject then lists s' ! cur
                          else lists s' ! cur @ [PStr (resource @ '':'' @ node_name)])
       \<and> generate_prov_string (lists s' ! l) = Inr (res, key)
       \<and> (\<forall>a < length (lists s). lists s' ! a = lists s ! a)
       \<and> dicts s' ! j = set_CpacProvenance l
             (if dicts s ! m = empty_json
              then Json None None (Some [resource]) None None [] else dicts s ! m)"
  using assms
  apply (simp add: set_data_json_store_def alloc_dict_def alloc_list_def Let_def
      split: option.splits sum.splits prod.splits if_splits)
         apply (auto simp: nth_append set_CpacProvenance_def)
  done

lemma set_data_json_store_refines:
  assumes m: "m < length (dicts s)"
    and refs: "\<forall>l \<in> set_metadata (dicts s ! m). l < length (lists s)"
    and call: "set_data_json_store s m resource node_name inject = Inr (s', j, cur, key)"
  shows "set_data_json (deref s m) resource node_name inject
           = Inr (lists s' ! cur, key, deref s' j)"
proof -
  let ?d = "dicts s ! m"
  have ref: "\<forall>a. CpacProvenance ?d = Some a \<longrightarrow> a < length (lists s)"
  proof (intro allI impI)
    fix a assume "CpacProvenance ?d = Some a"
    then have "a \<in> set_metadata ?d" by (cases ?d) auto
    then show "a < length (lists s)" using refs by blast
  qed
  from set_data_json_store_result [OF m ref call] obtain l res where
    r: "lists s' ! cur = (case CpacProvenance ?d of None \<Rightarrow> [] | Some a \<Rightarrow> lists s ! a)"
       "lists s' ! l = (if inject then lists s' ! cur
                        else lists s' ! cur @ [PStr (resource @ '':'' @ node_name)])"
       "generate_prov_string (lists s' ! l) = Inr (res, key)"
       "\<forall>a < length (lists s). lists s' ! a = lists s ! a"
       "dicts s' ! j = set_CpacProvenance l
             (if ?d = empty_json
              then Json None None (Some [resource]) None None [] else ?d)"
    by blast
  have frame: "map_metadata (\<lambda>l. lists s' ! l) ?d = deref s m"
    unfolding deref_def using refs r(4) by (rule deref_frame)
  have chain: "(case CpacProvenance (deref s m) of None \<Rightarrow> [] | Some p \<Rightarrow> p) = lists s' ! cur"
    using r(1) by (simp add: deref_def CpacProvenance_map_metadata split: option.splits)
  have stored: "deref s' j = set_CpacProvenance (lists s' ! l)
                  (if deref s m = empty_json
                   then Json None None (Some [resource]) None None [] else deref s m)"
  proof (cases "?d = empty_json")
    case True
    then have "deref s m = empty_json" by (simp add: deref_def map_metadata_empty_iff)
    then show ?thesis using True r(5)
      by (simp add: deref_def [of s'] map_metadata_set_CpacProvenance)
  next
    case False
    then have "deref s m \<noteq> empty_json" by (simp add: deref_def map_metadata_empty_iff)
    then show ?thesis using False r(5) frame
      by (simp add: deref_def [of s'] map_metadata_set_CpacProvenance)
  qed
  show ?thesis
    using r(2,3) chain stored by (cases inject) (auto simp: set_data_json_def Let_def)
qed

section \<open>Fork tags on commit\<close>

lemma fork_tags_tag_variant:
  "fork_tags (tag_variant fork opts all_opts label node_name j) r =
     (if (fork \<or> 1 < length opts \<or> 1 < length all_opts) \<and> r = get_raw_label label
      then fork_tags j r @ [node_name] else fork_tags j r)"
  by (auto simp: fork_tags_def tag_variant_def set_CpacVariant_def Let_def update_conv'
           split: option.splits)

lemma CpacProvenance_tag_variant [simp]:
  "CpacProvenance (tag_variant fork opts all_opts label node_name j) = CpacProvenance j"
  by (simp add: tag_variant_def set_CpacVariant_def Let_def)

text \<open>
  C7.  A commit of an output (\<open>True in switch\<close>) stores the record under the key of
  the chain with the step \<open>label:node_name\<close>.  The node name is appended to the
  fork-tag list of the output under the base resource name exactly when the switch has
  a \<open>False\<close> beside the \<open>True\<close>, or the block has more than one active option, or more
  than one option is active over all the blocks of the pass; otherwise (no \<open>False\<close>
  in the switch, one active option in the block and in the pass) the list is
  what it was.  The lists under the other names are not touched.
\<close>

theorem fork_tag_on_commit:
  assumes sw: "True \<in> set switch"
    and c: "commit_output self switch opts all_opts label connection new_json_info
              pipe_idx node_name = Inr self'"
  shows "\<exists>strats e.
           map_of (rpool self') label = Some strats
         \<and> map_of strats
              (py_str (PList ((case CpacProvenance new_json_info of None \<Rightarrow> [] | Some p \<Rightarrow> p)
                              @ [PStr (label @ '':'' @ node_name)]))) = Some e
         \<and> data e = connection
         \<and> fork_tags (json e) (get_raw_label label)
             = (if False \<in> set switch \<or> 1 < length opts \<or> 1 < length all_opts
                then fork_tags new_json_info (get_raw_label label) @ [node_name]
                else fork_tags new_json_info (get_raw_label label))
         \<and> (\<forall>r. r \<noteq> get_raw_label label
                \<longrightarrow> fork_tags (json e) r = fork_tags new_json_info r)"
proof -
  let ?fork = "False \<in> set switch"
  let ?tagged = "tag_variant ?fork opts all_opts label node_name new_json_info"
  have s: "set_data self label (fst connection) (snd connection) ?tagged
             pipe_idx node_name ?fork False = Inr self'"
    using sw c by (simp add: commit_output_def Let_def)
  from set_data_rpool [OF s] obtain cur key j' strats where
    a: "set_data_json ?tagged label node_name False = Inr (cur, key, j')"
       "map_of (rpool self') label
          = Some (AList.update key \<lparr> data = (fst connection, snd connection), json = j' \<rparr> strats)"
    by blast
  from set_data_json_result [OF a(1)]
  have k: "key = py_str (PList ((case CpacProvenance new_json_info of None \<Rightarrow> [] | Some p \<Rightarrow> p)
                              @ [PStr (label @ '':'' @ node_name)]))"
    and cv: "CpacVariant j' = CpacVariant ?tagged"
    by simp_all
  have ft: "fork_tags j' r = fork_tags ?tagged r" for r
    using cv by (simp add: fork_tags_def)
  let ?e = "\<lparr> data = (fst connection, snd connection), json = j' \<rparr>"
  have "map_of (AList.update key ?e strats) key = Some ?e" by (simp add: update_conv')
  then show ?thesis
    using a(2) k ft fork_tags_tag_variant
    by (intro exI [of _ "AList.update key ?e strats"] exI [of _ ?e]) simp
qed

theorem fork_tag_on_commit_witness:
  "\<exists>self' strats e self'' strats' e'.
      commit_output empty_pool [True] [Some ''afni'', Some ''fsl''] [Some ''afni'', Some ''fsl'']
        ''desc-brain_T1w'' (3, ''outputspec.brain'') tagged_json [] ''brain_extraction_afni''
        = Inr self'
    \<and> map_of (rpool self') ''desc-brain_T1w'' = Some strats
    \<and> map_of strats (py_str (PList [PStr ''T1w:anat_ingress'',
                                      PStr ''desc-brain_T1w:brain_extraction_afni'']))
        = Some e
    \<and> fork_tags (json e) ''T1w'' = [''acpc_alignment'', ''brain_extraction_afni'']
    \<and> commit_output empty_pool [True] [None] [None]
        ''desc-brain_T1w'' (3, ''outputspec.brain'') tagged_json [] ''brain_extraction''
        = Inr self''
    \<and> map_of (rpool self'') ''desc-brain_T1w'' = Some strats'
    \<and> map_of strats' (py_str (PList [PStr ''T1w:anat_ingress'',
                                       PStr ''desc-brain_T1w:brain_extraction'']))
        = Some e'
    \<and> fork_tags (json e') ''T1w'' = [''acpc_alignment'']"
proof -
  define self' where
    "self' = projr (commit_output empty_pool [True] [Some ''afni'', Some ''fsl'']
                      [Some ''afni'', Some ''fsl''] ''desc-brain_T1w'' (3, ''outputspec.brain'')
                      tagged_json [] ''brain_extraction_afni'')"
  define self'' where
    "self'' = projr (commit_output empty_pool [True] [None] [None]
                      ''desc-brain_T1w'' (3, ''outputspec.brain'')
                      tagged_json [] ''brain_extraction'')"
  have h1: "commit_output empty_pool [True] [Some ''afni'', Some ''fsl'']
              [Some ''afni'', Some ''fsl''] ''desc-brain_T1w'' (3, ''outputspec.brain'')
              tagged_json [] ''brain_extraction_afni'' = Inr self'"
    unfolding self'_def by code_simp
  have h2: "commit_output empty_pool [True] [None] [None]
              ''desc-brain_T1w'' (3, ''outputspec.brain'')
              tagged_json [] ''brain_extraction'' = Inr self''"
    unfolding self''_def by code_simp
  have raw: "get_raw_label ''desc-brain_T1w'' = ''T1w''" by code_simp
  have old: "fork_tags tagged_json ''T1w'' = [''acpc_alignment'']"
    by (simp add: fork_tags_def tagged_json_def)
  have sw: "True \<in> set [True]" by simp
  from fork_tag_on_commit [OF sw h1] obtain strats e where
    1: "map_of (rpool self') ''desc-brain_T1w'' = Some strats"
       "map_of strats (py_str (PList [PStr ''T1w:anat_ingress'',
                                      PStr ''desc-brain_T1w:brain_extraction_afni''])) = Some e"
       "fork_tags (json e) ''T1w'' = [''acpc_alignment'', ''brain_extraction_afni'']"
    unfolding raw old by (auto simp: tagged_json_def)
  from fork_tag_on_commit [OF sw h2] obtain strats' e' where
    2: "map_of (rpool self'') ''desc-brain_T1w'' = Some strats'"
       "map_of strats' (py_str (PList [PStr ''T1w:anat_ingress'',
                                       PStr ''desc-brain_T1w:brain_extraction''])) = Some e'"
       "fork_tags (json e') ''T1w'' = [''acpc_alignment'']"
    unfolding raw old by (auto simp: tagged_json_def)
  from h1 h2 1 2 show ?thesis by blast
qed

section \<open>The combinations of \<open>get_strats\<close>\<close>

subsection \<open>The inputs and their lineages\<close>

lemma fetch_SomeD:
  "fetch self l = Some (rp_dct, name) \<Longrightarrow> map_of (rpool self) name = Some rp_dct \<and> rp_dct \<noteq> []"
  by (auto simp: fetch_def get_def absent_def find_Some_iff
           split: label.splits option.splits sum.splits get_result.splits got.splits if_splits)


lemma variant_labels_ok:
  "list_all (\<lambda>(raw_label, tags). tags \<noteq> []) cv \<Longrightarrow> \<exists>ls. variant_labels cv = Inr ls"
  by (induction cv) (auto split: list.splits)

lemma strat_loop_ok:
  assumes "map_of (rpool self) name = Some rp_dct"
    and "\<forall>k \<in> set ks. \<exists>e. map_of rp_dct k = Some e \<and> record_ok name k e"
  shows "\<exists>variants. strat_loop self name ks
           = Inr (map (\<lambda>k. chain_of (the (map_of rp_dct k))) ks, variants)"
  using assms(2)
proof (induction ks)
  case Nil
  then show ?case by simp
next
  case (Cons k ks)
  then obtain e where e: "map_of rp_dct k = Some e" "record_ok name k e" by auto
  then obtain c where c: "CpacProvenance (json e) = Some c"
    by (auto simp: record_ok_def split: option.splits)
  have "\<exists>ls. (case CpacVariant (json e) of None \<Rightarrow> Inr [] | Some cv \<Rightarrow> variant_labels cv) = Inr ls"
    using e(2) by (auto simp: record_ok_def split: option.splits dest: variant_labels_ok)
  then obtain ls where ls: "(case CpacVariant (json e) of None \<Rightarrow> Inr [] | Some cv \<Rightarrow> variant_labels cv) = Inr ls"
    by blast
  from Cons obtain variants where
    IH: "strat_loop self name ks = Inr (map (\<lambda>k. chain_of (the (map_of rp_dct k))) ks, variants)"
    by auto
  have gj: "get_json self name k = Inr (json e)"
    using assms(1) e(1) by (simp add: get_json_def)
  show ?case using gj c ls IH e(1) by (simp add: chain_of_def)
qed

lemma map_of_distinct_keys:
  "distinct (map fst xs) \<Longrightarrow> map (\<lambda>k. f (the (map_of xs k))) (map fst xs) = map (\<lambda>(k, e). f e) xs"
  by (induction xs) (auto simp: rev_image_eqI)

lemma strat_loop_input:
  assumes f: "fetch self l = Some (rp_dct, name)" and ok: "input_ok self l"
  shows "\<exists>variants. strat_loop self name (map fst rp_dct) = Inr (lineages self l, variants)"
proof -
  have d: "distinct (map fst rp_dct)" and r: "list_all (\<lambda>(k, e). record_ok name k e) rp_dct"
    using ok f by (simp_all add: input_ok_def)
  have m: "map_of (rpool self) name = Some rp_dct" using fetch_SomeD [OF f] by simp
  have "\<forall>k \<in> set (map fst rp_dct). \<exists>e. map_of rp_dct k = Some e \<and> record_ok name k e"
  proof
    fix k assume "k \<in> set (map fst rp_dct)"
    then obtain e where ke: "(k, e) \<in> set rp_dct" by auto
    then have "map_of rp_dct k = Some e" using d by simp
    moreover have "record_ok name k e" using r ke by (auto simp: list_all_iff)
    ultimately show "\<exists>e. map_of rp_dct k = Some e \<and> record_ok name k e" by blast
  qed
  from strat_loop_ok [OF m this] obtain variants where
    "strat_loop self name (map fst rp_dct)
       = Inr (map (\<lambda>k. chain_of (the (map_of rp_dct k))) (map fst rp_dct), variants)"
    by blast
  moreover have "map (\<lambda>k. chain_of (the (map_of rp_dct k))) (map fst rp_dct) = lineages self l"
    using map_of_distinct_keys [OF d, of chain_of] f by (simp add: lineages_def)
  ultimately show ?thesis by auto
qed

lemma gather_ok:
  assumes "\<forall>l \<in> set labels. input_ok self l"
  shows "\<exists>variant_pool. gather self labels
           = Inr (map (lineages self) (filter (present self) labels), variant_pool)"
  using assms
proof (induction labels)
  case Nil
  then show ?case by simp
next
  case (Cons l labels)
  then obtain vp where IH:
    "gather self labels = Inr (map (lineages self) (filter (present self) labels), vp)"
    by auto
  show ?case
  proof (cases "fetch self l")
    case None
    then have "\<not> present self l" by (simp add: present_def)
    then show ?thesis using None IH by simp
  next
    case (Some a)
    obtain rp_dct name where a: "a = (rp_dct, name)" by (cases a)
    from strat_loop_input [of self l rp_dct name] Some a Cons.prems obtain variants where
      "strat_loop self name (map fst rp_dct) = Inr (lineages self l, variants)" by auto
    moreover have "present self l" using Some by (simp add: present_def)
    ultimately show ?thesis using Some a IH by simp
  qed
qed

lemma collect_inputs_Single: "collect_inputs self (map Single labels) = (labels, [])"
  by (induction labels) auto

lemma len_inputs_present: "len_inputs self labels = length (filter (present self) labels)"
proof -
  have "(\<lambda>r. fetch self r = None) = (\<lambda>r. \<not> present self r)"
    by (rule ext) (simp only: present_def not_not)
  then have "length (filter (present self) labels)
               + length (filter (\<lambda>r. fetch self r = None) labels) = length labels"
    using sum_length_filter_compl [of "present self" labels] by simp
  then show ?thesis by (simp add: len_inputs_def)
qed

lemma lineages_keys:
  assumes f: "fetch self l = Some (rp_dct, name)" and ok: "input_ok self l"
  shows "map (\<lambda>c. py_str (PList c)) (lineages self l) = map fst rp_dct"
    and "\<forall>c \<in> set (lineages self l). generate_prov_string c = Inr (name, py_str (PList c))
                       \<and> map_of rp_dct (py_str (PList c)) \<noteq> None"
    and "distinct (lineages self l)"
proof -
  have d: "distinct (map fst rp_dct)" and r: "list_all (\<lambda>(k, e). record_ok name k e) rp_dct"
    using ok f by (simp_all add: input_ok_def)
  have rec: "generate_prov_string (chain_of e) = Inr (name, k) \<and> k = py_str (PList (chain_of e))"
    if "(k, e) \<in> set rp_dct" for k e
  proof -
    have "record_ok name k e" using r that by (auto simp: list_all_iff)
    then have "generate_prov_string (chain_of e) = Inr (name, k)"
      by (auto simp: record_ok_def chain_of_def split: option.splits)
    then show ?thesis using generate_prov_string_key by blast
  qed
  have l: "lineages self l = map (\<lambda>(k, e). chain_of e) rp_dct"
    using f by (simp add: lineages_def)
  show keys: "map (\<lambda>c. py_str (PList c)) (lineages self l) = map fst rp_dct"
    unfolding l using rec by (auto simp: map_eq_conv)
  show "\<forall>c \<in> set (lineages self l). generate_prov_string c = Inr (name, py_str (PList c))
                       \<and> map_of rp_dct (py_str (PList c)) \<noteq> None"
  proof
    fix c assume "c \<in> set (lineages self l)"
    then obtain k e where ke: "(k, e) \<in> set rp_dct" "c = chain_of e" unfolding l by auto
    have "map_of rp_dct k = Some e" using d ke(1) by simp
    then show "generate_prov_string c = Inr (name, py_str (PList c))
                 \<and> map_of rp_dct (py_str (PList c)) \<noteq> None"
      using rec [OF ke(1)] ke(2) by auto
  qed
  show "distinct (lineages self l)"
    using d keys distinct_map by metis
qed

subsection \<open>One input\<close>

lemma set_update_subset: "set (AList.update k v al) \<subseteq> insert (k, v) (set al)"
  by (induction al) auto

lemma single_strats_ok:
  assumes "map_of (rpool self) name = Some strats"
    and "\<forall>c \<in> set cs. generate_prov_string c = Inr (name, py_str (PList c))
                       \<and> map_of strats (py_str (PList c)) \<noteq> None"
    and "distinct (map (\<lambda>c. py_str (PList c)) cs)"
    and "set (map (\<lambda>c. py_str (PList c)) cs) \<inter> set (map fst ns) = {}"
    and "\<forall>sp \<in> snd ` set ns. map fst (sp_rpool sp) = [name]"
  shows "\<exists>self' ns' strats'.
           single_strats cs (self, ns) = Inr (self', ns')
         \<and> map fst ns' = map fst ns @ map (\<lambda>c. py_str (PList c)) cs
         \<and> (\<forall>sp \<in> snd ` set ns'. map fst (sp_rpool sp) = [name])
         \<and> map_of (rpool self') name = Some strats'
         \<and> map fst strats' = map fst strats
         \<and> pipe_list self' = pipe_list self"
  using assms
proof (induction cs arbitrary: self ns strats)
  case Nil
  then show ?case by simp
next
  case (Cons c cs)
  let ?k = "py_str (PList c)"
  from Cons.prems(2) have g: "generate_prov_string c = Inr (name, ?k)" by simp
  from Cons.prems(2) obtain e where e: "map_of strats ?k = Some e" by auto
  define base where "base = set_CpacProvenance c (set_subjson [] (json e))"
  define data_type where "data_type = last (split (CHR ''_'') name)"
  define j where
    "j = set_subjson [(data_type, info_update empty_json
                         (set_subjson [(data_type, empty_json)] base))] base"
  define record' where "record' = e \<lparr> json := j \<rparr>"
  define strats1 where "strats1 = AList.update ?k record' strats"
  define self1 where "self1 = self \<lparr> rpool := AList.update name strats1 (rpool self) \<rparr>"
  define ns1 where "ns1 = AList.update ?k \<lparr> sp_json = j, sp_rpool = [(name, record')] \<rparr> ns"
  have step: "single_strats (c # cs) (self, ns) = single_strats cs (self1, ns1)"
    using g Cons.prems(1) e
    by (simp add: Let_def base_def data_type_def j_def record'_def strats1_def self1_def ns1_def)
  have knew: "?k \<notin> set (map fst ns)" using Cons.prems(4) by auto
  have keys1: "map fst ns1 = map fst ns @ [?k]"
    using knew by (simp add: ns1_def update_keys)
  have m1: "map_of (rpool self1) name = Some strats1"
    by (simp add: self1_def update_conv')
  have sk: "map fst strats1 = map fst strats"
    using e by (auto simp: strats1_def update_keys dest: map_of_SomeD intro: rev_image_eqI)
  have p2: "\<forall>c \<in> set cs. generate_prov_string c = Inr (name, py_str (PList c))
                       \<and> map_of strats1 (py_str (PList c)) \<noteq> None"
    using Cons.prems(2) by (auto simp: strats1_def update_conv')
  have p3: "distinct (map (\<lambda>c. py_str (PList c)) cs)" using Cons.prems(3) by simp
  have p4: "set (map (\<lambda>c. py_str (PList c)) cs) \<inter> set (map fst ns1) = {}"
    using Cons.prems(3,4) keys1 by auto
  have p5: "\<forall>sp \<in> snd ` set ns1. map fst (sp_rpool sp) = [name]"
  proof
    fix sp assume "sp \<in> snd ` set ns1"
    then obtain k where "(k, sp) \<in> set ns1" by auto
    then have "(k, sp) \<in> set ns \<or> sp = \<lparr> sp_json = j, sp_rpool = [(name, record')] \<rparr>"
      unfolding ns1_def using set_update_subset by fastforce
    then show "map fst (sp_rpool sp) = [name]" using Cons.prems(5) by force
  qed
  from Cons.IH [OF m1 p2 p3 p4 p5] obtain self' ns' strats' where
    r: "single_strats cs (self1, ns1) = Inr (self', ns')"
       "map fst ns' = map fst ns1 @ map (\<lambda>c. py_str (PList c)) cs"
       "\<forall>sp \<in> snd ` set ns'. map fst (sp_rpool sp) = [name]"
       "map_of (rpool self') name = Some strats'"
       "map fst strats' = map fst strats1"
       "pipe_list self' = pipe_list self1"
    by blast
  show ?case
    using step r keys1 sk by (auto simp: self1_def)
qed


text \<open>
  C8.  Two declared inputs, one in the pool with well-formed records under distinct
  keys, the other not in the pool: \<open>get_strats\<close> returns, \<open>len_inputs\<close> is one, and
  \<open>new_strats\<close> has one sub-pool per lineage of the input that is there, under that
  input's lineage keys in their order; each sub-pool holds that resource only.
\<close>

theorem optional_absent_input:
  assumes f: "fetch self input = Some (rp_dct, name)"
    and ok: "input_ok self input"
    and absent: "\<not> present self optional_input"
    and res: "resources = [Single input, Single optional_input]
              \<or> resources = [Single optional_input, Single input]"
  shows "\<exists>new_strats self'.
           get_strats self resources = Inr (new_strats, self')
         \<and> map fst new_strats = map fst rp_dct
         \<and> (\<forall>sp \<in> snd ` set new_strats. map fst (sp_rpool sp) = [name])
         \<and> len_inputs self (fst (collect_inputs self resources)) = 1"
proof -
  define labels where
    "labels = (if resources = [Single input, Single optional_input]
               then [input, optional_input] else [optional_input, input])"
  have labels: "resources = map Single labels"
    "labels = [input, optional_input] \<or> labels = [optional_input, input]"
    using res by (auto simp: labels_def)
  have pres: "present self input" using f by (simp add: present_def)
  have fl: "filter (present self) labels = [input]"
    using labels(2) pres absent by auto
  have "fetch self optional_input = None" using absent by (simp only: present_def not_not)
  then have "input_ok self optional_input" by (simp add: input_ok_def)
  then have oks: "\<forall>l \<in> set labels. input_ok self l"
    using labels(2) ok by auto
  have ci: "collect_inputs self resources = (labels, [])"
    unfolding labels(1) by (rule collect_inputs_Single)
  from gather_ok [OF oks] fl obtain vp where
    g: "gather self labels = Inr ([lineages self input], vp)" by auto
  have li: "len_inputs self labels = 1" using len_inputs_present [of self labels] fl by simp
  have m: "map_of (rpool self) name = Some rp_dct" using fetch_SomeD [OF f] by simp
  note lk = lineages_keys [OF f ok]
  have d: "distinct (map (\<lambda>c. py_str (PList c)) (lineages self input))"
    using lk(1) ok f by (simp add: input_ok_def)
  from single_strats_ok [OF m lk(2) d, of "[]"] obtain self' ns' where
    s: "single_strats (lineages self input) (self, []) = Inr (self', ns')"
       "map fst ns' = map (\<lambda>c. py_str (PList c)) (lineages self input)"
       "\<forall>sp \<in> snd ` set ns'. map fst (sp_rpool sp) = [name]"
    by auto
  have "get_strats self resources = Inr (ns', self')"
    using ci g li s(1) by (simp add: get_strats_def)
  then show ?thesis using s(2,3) lk(1) ci li by auto
qed

theorem optional_absent_input_witness:
  "\<exists>new_strats self'.
      get_strats linked_pool [Single (Label ''desc-preproc_T1w''), Single (Label ''T2w'')]
        = Inr (new_strats, self')
    \<and> map fst new_strats = [py_str (PList chain_init), py_str (PList chain_acpc)]
    \<and> map (\<lambda>sp. map fst (sp_rpool sp)) (map snd new_strats)
        = [[''desc-preproc_T1w''], [''desc-preproc_T1w'']]
    \<and> len_inputs linked_pool [Label ''desc-preproc_T1w'', Label ''T2w''] = 1"
proof -
  let ?rp = "[record_of 1 chain_init None,
              record_of 2 chain_acpc (Some [(''T1w'', [''acpc_alignment''])])]"
  have f: "fetch linked_pool (Label ''desc-preproc_T1w'') = Some (?rp, ''desc-preproc_T1w'')"
    by (simp add: fetch_def get_def linked_pool_def record_of_def)
  have ok: "input_ok linked_pool (Label ''desc-preproc_T1w'')" by code_simp
  have ab: "\<not> present linked_pool (Label ''T2w'')" by code_simp
  from optional_absent_input [OF f ok ab, of "[Single (Label ''desc-preproc_T1w''), Single (Label ''T2w'')]"]
  obtain new_strats self' where
    r: "get_strats linked_pool [Single (Label ''desc-preproc_T1w''), Single (Label ''T2w'')]
          = Inr (new_strats, self')"
       "map fst new_strats = map fst ?rp"
       "\<forall>sp \<in> snd ` set new_strats. map fst (sp_rpool sp) = [''desc-preproc_T1w'']"
       "len_inputs linked_pool [Label ''desc-preproc_T1w'', Label ''T2w''] = 1"
    by auto
  have "length new_strats = 2" using r(2) by (metis length_map length_Cons list.size(3) numeral_2_eq_2)
  then obtain a b where ab': "new_strats = [a, b]"
    by (auto simp: length_Suc_conv numeral_2_eq_2)
  have "map (\<lambda>sp. map fst (sp_rpool sp)) (map snd new_strats)
          = [[''desc-preproc_T1w''], [''desc-preproc_T1w'']]"
    using r(3) unfolding ab' by simp
  moreover have "map fst ?rp = [py_str (PList chain_init), py_str (PList chain_acpc)]"
    by (simp add: record_of_def del: py_str.simps)
  ultimately show ?thesis using r(1,2,4) by (auto simp del: py_str.simps)
qed

subsection \<open>Several inputs, none linked\<close>

lemma strat_key_inj:
  assumes "py_str (PList (map PList a)) = py_str (PList (map PList b))"
  shows "a = b"
proof -
  have "PList (map PList a) = PList (map PList b)" using assms by (rule py_str_inj)
  then have "map PList a = map PList b" by simp
  then show ?thesis by (simp add: inj_map_eq_map inj_on_def)
qed

lemma dedup_strats_id:
  assumes "distinct sls"
    and "\<forall>sl \<in> set sls. py_str (PList (map PList sl)) \<notin> set seen"
  shows "dedup_strats sls seen = sls"
  using assms
proof (induction sls arbitrary: seen)
  case Nil
  then show ?case by simp
next
  case (Cons sl sls)
  have "\<forall>x \<in> set sls. py_str (PList (map PList x))
          \<notin> set (seen @ [py_str (PList (map PList sl))])"
    using Cons.prems by (auto simp del: py_str.simps dest: strat_key_inj)
  then have "dedup_strats sls (seen @ [py_str (PList (map PList sl))]) = sls"
    using Cons.IH Cons.prems(1) by simp
  then show ?case using Cons.prems(2) by (simp add: Let_def del: py_str.simps)
qed

lemma json_dct_of_ok:
  "\<forall>c \<in> set sl. resolvable self c \<Longrightarrow> \<exists>d. json_dct_of self sl acc = Inr d"
proof (induction sl arbitrary: acc)
  case Nil
  then show ?case by simp
next
  case (Cons c sl)
  then obtain name k strats e where
    "generate_prov_string c = Inr (name, k)" "map_of (rpool self) name = Some strats"
    "map_of strats k = Some e"
    by (auto simp: resolvable_def)
  then show ?case using Cons by (simp add: get_json_def)
qed

lemma dropped_no_links:
  "\<forall>c \<in> set sl. resolvable self c \<Longrightarrow> dropped self [] vp sl = Inr False"
  using json_dct_of_ok [of sl self "[]"] by (auto simp: dropped_def)

lemma fill_merged_ok:
  assumes "\<forall>c \<in> set sl. resolvable self c" and "subjson (sp_json sp) \<noteq> None"
  shows "\<exists>sp'. fill_merged self pipe_idx sl (sp, pipes)
                 = Inr (sp', pipes @ replicate (length sl) pipe_idx)"
  using assms
proof (induction sl arbitrary: sp pipes)
  case Nil
  then show ?case by simp
next
  case (Cons c sl)
  then obtain name k strats e where
    r: "generate_prov_string c = Inr (name, k)" "map_of (rpool self) name = Some strats"
       "map_of strats k = Some e"
    by (auto simp: resolvable_def)
  define j1 where
    "j1 = (case CpacVariant (json e) of
             None \<Rightarrow> sp_json sp
           | Some cv \<Rightarrow> set_CpacVariant
               (merge_variants (case CpacVariant (sp_json sp) of None \<Rightarrow> [] | Some m \<Rightarrow> m) cv)
               (sp_json sp))"
  have sj1: "subjson j1 = subjson (sp_json sp)"
    by (simp add: j1_def set_CpacVariant_def split: option.splits)
  then obtain sj where sj: "subjson j1 = Some sj" using Cons.prems(2) by auto
  define data_type where "data_type = last (split (CHR ''_'') name)"
  define j2 where
    "j2 = set_subjson
            (AList.update data_type
               (info_update (case map_of sj data_type of None \<Rightarrow> empty_json | Some d \<Rightarrow> d)
                  (json e)) sj) j1"
  define sp1 where "sp1 = \<lparr> sp_json = j2, sp_rpool = AList.update name e (sp_rpool sp) \<rparr>"
  have step: "fill_merged self pipe_idx (c # sl) (sp, pipes)
                = fill_merged self pipe_idx sl (sp1, pipes @ [pipe_idx])"
    using r sj by (simp add: Let_def j1_def [symmetric] data_type_def [symmetric]
                             j2_def [symmetric] sp1_def [symmetric])
  have "subjson (sp_json sp1) \<noteq> None" by (simp add: sp1_def j2_def set_subjson_def)
  from Cons.IH [OF _ this, of "pipes @ [pipe_idx]"] Cons.prems(1) obtain sp' where
    "fill_merged self pipe_idx sl (sp1, pipes @ [pipe_idx])
       = Inr (sp', (pipes @ [pipe_idx]) @ replicate (length sl) pipe_idx)"
    by auto
  then show ?case using step by (auto simp: replicate_append_same)
qed

lemma merged_strats_no_links:
  assumes "\<forall>sl \<in> set sls. \<forall>c \<in> set sl. resolvable self c"
    and "distinct (map (\<lambda>sl. py_str (PList (map PList sl))) sls)"
    and "\<forall>sl \<in> set sls. py_str (PList (map PList sl)) \<notin> set (map fst ns)"
  shows "\<exists>ns' pipes'. merged_strats self [] vp sls (ns, pipes) = Inr (ns', pipes')
           \<and> map fst ns' = map fst ns @ map (\<lambda>sl. py_str (PList (map PList sl))) sls"
  using assms
proof (induction sls arbitrary: ns pipes)
  case Nil
  then show ?case by simp
next
  case (Cons sl sls)
  let ?k = "py_str (PList (map PList sl))"
  have d: "dropped self [] vp sl = Inr False"
    using Cons.prems(1) by (intro dropped_no_links) simp
  from fill_merged_ok [of sl self
         "\<lparr> sp_json = Json (Some (map PList sl)) None None None (Some []) [], sp_rpool = [] \<rparr>"
         ?k pipes]
    Cons.prems(1)
  obtain sp' where
    f: "fill_merged self ?k sl
          (\<lparr> sp_json = Json (Some (map PList sl)) None None None (Some []) [], sp_rpool = [] \<rparr>,
           pipes) = Inr (sp', pipes @ replicate (length sl) ?k)"
    by auto
  have step: "merged_strats self [] vp (sl # sls) (ns, pipes)
                = merged_strats self [] vp sls
                    (AList.update ?k sp' ns, pipes @ replicate (length sl) ?k)"
    using d f by (simp add: Let_def del: py_str.simps)
  have keys: "map fst (AList.update ?k sp' ns) = map fst ns @ [?k]"
    using Cons.prems(3) by (simp add: update_keys del: py_str.simps)
  have p3: "\<forall>x \<in> set sls. py_str (PList (map PList x)) \<notin> set (map fst (AList.update ?k sp' ns))"
  proof
    fix x assume x: "x \<in> set sls"
    then have "py_str (PList (map PList x)) \<noteq> ?k"
      using Cons.prems(2) by (auto simp del: py_str.simps intro: rev_image_eqI)
    moreover have "py_str (PList (map PList x)) \<notin> set (map fst ns)"
      using Cons.prems(3) x by simp
    ultimately show "py_str (PList (map PList x)) \<notin> set (map fst (AList.update ?k sp' ns))"
      unfolding keys by simp
  qed
  from Cons.IH [OF _ _ p3, of "pipes @ replicate (length sl) ?k"] Cons.prems(1,2)
  obtain ns' pipes' where
    "merged_strats self [] vp sls (AList.update ?k sp' ns, pipes @ replicate (length sl) ?k)
       = Inr (ns', pipes')"
    "map fst ns' = map fst (AList.update ?k sp' ns)
                     @ map (\<lambda>sl. py_str (PList (map PList sl))) sls"
    by auto
  then show ?case using step keys by (auto simp del: py_str.simps)
qed

lemma length_product_lists_prod:
  "length (product_lists xss) = prod_list (map length xss)"
  by (induction xss) (simp_all add: length_concat o_def sum_list_triv)

lemma in_product_lists_elem:
  "sl \<in> set (product_lists xss) \<Longrightarrow> c \<in> set sl \<Longrightarrow> \<exists>xs \<in> set xss. c \<in> set xs"
proof (induction xss arbitrary: sl)
  case Nil
  then show ?case by simp
next
  case (Cons xs xss)
  then obtain x rest where sl: "sl = x # rest" "x \<in> set xs" "rest \<in> set (product_lists xss)"
    by auto
  show ?case
  proof (cases "c = x")
    case True
    then show ?thesis using sl(2) by auto
  next
    case False
    then have "c \<in> set rest" using Cons.prems(2) sl(1) by simp
    then show ?thesis using Cons.IH [OF sl(3)] by auto
  qed
qed

text \<open>
  C2.  Inputs none of which is a linked group, at least two of them in the pool,
  with well-formed records under distinct keys: \<open>get_strats\<close> returns one sub-pool per
  element of the cross product of the lineages of the inputs that are there, under
  the \<open>str\<close> of the combination; the keys are distinct, so there are
  \<open>n1 * ... * nk\<close> sub-pools.
\<close>

theorem cross_product_size:
  assumes ok: "\<forall>l \<in> set labels. input_ok self l"
    and k: "2 \<le> length (filter (present self) labels)"
  shows "\<exists>new_strats self'.
           get_strats self (map Single labels) = Inr (new_strats, self')
         \<and> map fst new_strats
             = map (\<lambda>strat_list. py_str (PList (map PList strat_list)))
                 (product_lists (map (lineages self) (filter (present self) labels)))
         \<and> distinct (map fst new_strats)
         \<and> length new_strats
             = prod_list (map (\<lambda>l. length (lineages self l)) (filter (present self) labels))"
proof -
  let ?present = "filter (present self) labels"
  let ?tp = "map (lineages self) ?present"
  let ?key = "\<lambda>strat_list. py_str (PList (map PList strat_list))"
  have ci: "collect_inputs self (map Single labels) = (labels, [])"
    by (rule collect_inputs_Single)
  from gather_ok [OF ok] obtain vp where g: "gather self labels = Inr (?tp, vp)" by blast
  have li: "1 < len_inputs self labels" using len_inputs_present [of self labels] k by simp
  have ne: "?tp \<noteq> []" using k by auto
  have each: "distinct (lineages self l) \<and> (\<forall>c \<in> set (lineages self l). resolvable self c)"
    if "l \<in> set ?present" for l
  proof -
    from that obtain rp_dct name where f: "fetch self l = Some (rp_dct, name)"
      by (auto simp: present_def)
    have okl: "input_ok self l" using ok that by simp
    note lk = lineages_keys [OF f okl]
    have m: "map_of (rpool self) name = Some rp_dct" using fetch_SomeD [OF f] by simp
    have "resolvable self c" if "c \<in> set (lineages self l)" for c
      using lk(2) that m unfolding resolvable_def by fastforce
    then show ?thesis using lk(3) by blast
  qed
  have "\<forall>xs \<in> set ?tp. distinct xs"
  proof
    fix xs assume "xs \<in> set ?tp"
    then obtain l where l: "l \<in> set ?present" "xs = lineages self l"
      by (auto simp only: set_map)
    from each [OF l(1)] l(2) show "distinct xs" by blast
  qed
  then have dist: "distinct (product_lists ?tp)" by (rule distinct_product_lists)
  have res: "\<forall>sl \<in> set (product_lists ?tp). \<forall>c \<in> set sl. resolvable self c"
  proof (intro ballI)
    fix sl c assume "sl \<in> set (product_lists ?tp)" "c \<in> set sl"
    from in_product_lists_elem [OF this] obtain xs where xs: "xs \<in> set ?tp" "c \<in> set xs"
      by blast
    from xs(1) obtain l where l: "l \<in> set ?present" "xs = lineages self l"
      by (auto simp only: set_map)
    from each [OF l(1)] xs(2) l(2) show "resolvable self c" by blast
  qed
  have dd: "dedup_strats (product_lists ?tp) [] = product_lists ?tp"
    using dist by (intro dedup_strats_id) simp_all
  have "inj_on ?key (set (product_lists ?tp))"
    by (rule inj_onI) (rule strat_key_inj)
  then have dk: "distinct (map ?key (product_lists ?tp))"
    using dist by (simp only: distinct_map)
  from merged_strats_no_links [OF res dk, of "[]" vp "pipe_list self"] obtain ns' pipes' where
    ms: "merged_strats self [] vp (product_lists ?tp) ([], pipe_list self) = Inr (ns', pipes')"
        "map fst ns' = map ?key (product_lists ?tp)"
    by auto
  have gs: "get_strats self (map Single labels) = Inr (ns', self \<lparr> pipe_list := pipes' \<rparr>)"
    using ci g li ne dd ms(1) by (simp add: get_strats_def del: py_str.simps)
  have len: "length ns' = prod_list (map (\<lambda>l. length (lineages self l)) ?present)"
  proof -
    have "length ns' = length (map fst ns')" by simp
    also have "\<dots> = length (product_lists ?tp)" unfolding ms(2) by simp
    also have "\<dots> = prod_list (map length ?tp)" by (rule length_product_lists_prod)
    finally show ?thesis by (simp add: o_def)
  qed
  show ?thesis using gs ms(2) dk len by (auto simp del: py_str.simps)
qed

theorem cross_product_size_witness:
  "\<exists>new_strats self'.
      get_strats linked_pool
        (map Single [Label ''desc-preproc_T1w'', Label ''T2w'', Label ''desc-brain_mask''])
        = Inr (new_strats, self')
    \<and> length new_strats = 4
    \<and> distinct (map fst new_strats)
    \<and> map fst new_strats
        = map (\<lambda>strat_list. py_str (PList (map PList strat_list)))
            [[chain_init, mask_init], [chain_init, mask_acpc],
             [chain_acpc, mask_init], [chain_acpc, mask_acpc]]"
proof -
  let ?labels = "[Label ''desc-preproc_T1w'', Label ''T2w'', Label ''desc-brain_mask'']"
  have ok: "\<forall>l \<in> set ?labels. input_ok linked_pool l" by code_simp
  have f: "filter (present linked_pool) ?labels
             = [Label ''desc-preproc_T1w'', Label ''desc-brain_mask'']" by code_simp
  have k: "2 \<le> length (filter (present linked_pool) ?labels)" unfolding f by simp
  have l1: "lineages linked_pool (Label ''desc-preproc_T1w'') = [chain_init, chain_acpc]"
    by (simp add: lineages_def fetch_def get_def linked_pool_def record_of_def chain_of_def)
  have l2: "lineages linked_pool (Label ''desc-brain_mask'') = [mask_init, mask_acpc]"
    by (simp add: lineages_def fetch_def get_def linked_pool_def record_of_def chain_of_def)
  from cross_product_size [OF ok k] show ?thesis
    unfolding f by (auto simp: l1 l2 simp del: py_str.simps)
qed

subsection \<open>Linked inputs\<close>















lemma dedup_strats_subset: "set (dedup_strats sls seen) \<subseteq> set sls"
  by (induction sls arbitrary: seen) (auto simp: Let_def simp del: py_str.simps)




text \<open>A tag that begins with \<open>NO-\<close> is taken for the negative label of another tag:
  with \<open>n4_correction\<close> in the registry of the other input, the tag
  \<open>NO-n4_correction\<close> counts as one of the other lineage's own labels, and the
  combination stays.\<close>

lemma no_prefixed_tag_pair_kept:
  "\<not> isl (get_strats no_tag_pool
             [Linked [Label ''desc-preproc_T1w'', Label ''desc-brain_mask'']])
   \<and> py_str (PList (map PList [chain_acpc, mask_acpc]))
       \<in> set (map fst (fst (projr (get_strats no_tag_pool
             [Linked [Label ''desc-preproc_T1w'', Label ''desc-brain_mask'']]))))
   \<and> map_of (snd (projr (gather no_tag_pool
                 [Label ''desc-preproc_T1w'', Label ''desc-brain_mask''])))
         ''desc-brain_mask''
       = Some [''n4_correction'', ''NO-n4_correction'']"
  by code_simp

section \<open>Insertion keeps the records well-formed\<close>

text \<open>
  The hypotheses on the inputs of \<open>get_strats\<close> above hold of every pool that is
  built from the empty one by inserts that are no injections, for resource names
  without a colon and metadata whose fork-tag lists are not empty.
\<close>

lemma split_no_sep: "sep \<notin> set s \<Longrightarrow> split sep (s @ sep # t) = s # split sep t"
  by (induction s) (auto split: list.splits)

lemma hd_split_step: "CHR '':'' \<notin> set resource
   \<Longrightarrow> hd (split (CHR '':'') (resource @ '':'' @ node_name)) = resource"
  using split_no_sep [of "CHR '':''" resource node_name] by simp

lemma set_delete_subset: "set (AList.delete k al) \<subseteq> set al"
  by (induction al) auto

lemma pool_ok_input_ok: "pool_ok self \<Longrightarrow> input_ok self l"
proof (cases "fetch self l")
  case None
  then show ?thesis by (simp add: input_ok_def)
next
  case (Some a)
  assume ok: "pool_ok self"
  obtain rp name where a: "a = (rp, name)" by (cases a)
  have "map_of (rpool self) name = Some rp" using fetch_SomeD Some a by blast
  then have "(name, rp) \<in> set (rpool self)" by (rule map_of_SomeD)
  then have "distinct (map fst rp) \<and> (\<forall>(key, e) \<in> set rp. record_ok name key e)"
    using ok by (auto simp: pool_ok_def)
  then show ?thesis using Some a by (auto simp: input_ok_def list_all_iff)
qed

lemma set_data_pool_ok:
  assumes ok: "pool_ok self"
    and s: "set_data self resource node output json_info pipe_idx node_name fork False = Inr self'"
    and colon: "CHR '':'' \<notin> set resource"
    and tags: "\<forall>cv. CpacVariant json_info = Some cv \<longrightarrow> list_all (\<lambda>(raw_label, tags). tags \<noteq> []) cv"
  shows "pool_ok self'"
proof -
  from set_data_rpool [OF s] obtain cur key j' strats where
    a: "set_data_json json_info resource node_name False = Inr (cur, key, j')"
       "map_of (rpool self') resource
          = Some (AList.update key \<lparr> data = (node, output), json = j' \<rparr> strats)"
       "map_of (rpool self) resource = None \<longrightarrow> strats = []"
       "\<forall>old. map_of (rpool self) resource = Some old \<longrightarrow>
              (fork \<longrightarrow> strats = old)
            \<and> (\<not> fork \<longrightarrow> (\<exists>k. old_pipe_idx old resource cur pipe_idx = Inr k
                                  \<and> strats = AList.delete k old))"
    by auto
  let ?e = "\<lparr> data = (node, output), json = j' \<rparr>"
  have rp': "rpool self' = AList.update resource (AList.update key ?e strats) (rpool self)"
  proof -
    have "rpool self' = AList.update resource (the (map_of (rpool self') resource)) (rpool self)"
      using s by (auto simp: set_data_def update_conv' split: sum.splits option.splits if_splits)
    then show ?thesis using a(2) by simp
  qed
  have sub: "set strats \<subseteq> (case map_of (rpool self) resource of None \<Rightarrow> {} | Some old \<Rightarrow> set old)"
    and dst: "(\<forall>old. map_of (rpool self) resource = Some old \<longrightarrow> distinct (map fst old))
              \<longrightarrow> distinct (map fst strats)"
    using a(3,4) set_delete_subset
    by (cases "map_of (rpool self) resource"; cases fork; force simp: distinct_delete)+
  have old_ok: "distinct (map fst old) \<and> (\<forall>(k, e) \<in> set old. record_ok resource k e)"
    if "map_of (rpool self) resource = Some old" for old
    using ok map_of_SomeD [OF that] by (auto simp: pool_ok_def)
  have d1: "distinct (map fst strats)" using dst old_ok by blast
  have r1: "\<forall>(k, e) \<in> set strats. record_ok resource k e"
    using sub old_ok by (cases "map_of (rpool self) resource") auto
  have new_ok: "record_ok resource key ?e"
  proof -
    let ?new = "cur @ [PStr (resource @ '':'' @ node_name)]"
    from set_data_json_result [OF a(1)] have
      j: "CpacProvenance j' = Some ?new" "key = py_str (PList ?new)"
         "CpacVariant j' = CpacVariant json_info"
      by simp_all
    have "generate_prov_string ?new = Inr (resource, key)"
      using j(2) hd_split_step [OF colon, of node_name]
      by (simp add: generate_prov_string_def del: py_str.simps)
    then show ?thesis using j(1,3) tags by (auto simp: record_ok_def split: option.splits)
  qed
  have d2: "distinct (map fst (AList.update key ?e strats))" using d1 by (rule distinct_update)
  have r2: "\<forall>(k, e) \<in> set (AList.update key ?e strats). record_ok resource k e"
    using r1 new_ok set_update_subset [of key ?e strats] by fastforce
  have "distinct (map fst (rpool self'))"
    unfolding rp' using ok by (auto simp: pool_ok_def intro: distinct_update)
  moreover have "distinct (map fst strats') \<and> (\<forall>(key, e) \<in> set strats'. record_ok name key e)"
    if "(name, strats') \<in> set (rpool self')" for name strats'
  proof -
    from that have "(name, strats') = (resource, AList.update key ?e strats)
                    \<or> (name, strats') \<in> set (rpool self)"
      unfolding rp' using set_update_subset by fastforce
    then show ?thesis using d2 r2 ok by (auto simp: pool_ok_def)
  qed
  ultimately show ?thesis unfolding pool_ok_def by blast
qed

lemma pool_ok_empty: "pool_ok \<lparr> rpool = [], pipe_list = [], rtable = [] \<rparr>"
  by (simp add: pool_ok_def)

end
